theory Spec2Isabelle
  imports Main "HOL-Library.Word" "HOL-Library.Multiset" "HOL-Library.AList"
begin

section \<open>Bytes, errors and the key encoder\<close>

text \<open>
  Go strings and byte slices are byte sequences. A panic of the Go runtime or a
  \<^verbatim>\<open>logger.Panicf\<close> of the code is a value of \<open>error\<close>; a function that can panic
  returns \<open>error + 'a\<close>.
\<close>

type_synonym byte = "8 word"
type_synonym bytes = "byte list"
type_synonym int64 = "64 word"
type_synonym uint64 = "64 word"

datatype error =
    IndexOutOfRange
  | TypeAssertionFailed
  | CannotUnmarshalValue
  | UnexpectedNumberOfValues nat nat
  | UnknownValueType byte

definition bindE :: "error + 'a \<Rightarrow> ('a \<Rightarrow> error + 'b) \<Rightarrow> error + 'b" where
  "bindE r f = (case r of Inl e \<Rightarrow> Inl e | Inr x \<Rightarrow> f x)"

fun foldE :: "('a \<Rightarrow> 's \<Rightarrow> error + 's) \<Rightarrow> 'a list \<Rightarrow> 's \<Rightarrow> error + 's" where
  "foldE f [] s = Inr s"
| "foldE f (x # xs) s = bindE (f x s) (foldE f xs)"

fun mapE :: "('a \<Rightarrow> error + 'b) \<Rightarrow> 'a list \<Rightarrow> error + 'b list" where
  "mapE f [] = Inr []"
| "mapE f (x # xs) = bindE (f x) (\<lambda>y. bindE (mapE f xs) (\<lambda>ys. Inr (y # ys)))"

text \<open>Indexing a slice: Go panics out of range.\<close>

definition at :: "'a list \<Rightarrow> nat \<Rightarrow> error + 'a" where
  "at xs i = (if i < length xs then Inr (xs ! i) else Inl IndexOutOfRange)"

text \<open>
  Package \<^verbatim>\<open>encoding\<close> (\<^verbatim>\<open>MarshalVarUint64\<close>, \<^verbatim>\<open>MarshalBytes\<close>, \<^verbatim>\<open>UnmarshalBytes\<close>,
  \<^verbatim>\<open>MarshalInt64\<close>) is not among the sources; its functions are modelled from spec 4.2.
\<close>

text \<open>
  Modelled from the spec: the varint of \<^verbatim>\<open>MarshalVarUint64\<close>, missing from the sources. It
  is the usual base-128 one: the low seven bits first, the high bit of a byte saying that
  more bytes follow.
\<close>

function varUint64 :: "nat \<Rightarrow> bytes" where
  "varUint64 n = (if n < 128 then [of_nat n] else of_nat (n mod 128 + 128) # varUint64 (n div 128))"
  by pat_completeness auto
termination
  by (relation "measure (\<lambda>n. n)") auto

declare varUint64.simps [simp del]

text \<open>
  Modelled from the spec: \<^verbatim>\<open>encoding.MarshalVarUint64\<close>, missing from the sources: appends
  the varint of \<open>n\<close> to \<open>dst\<close>.
\<close>

definition marshalVarUint64 :: "bytes \<Rightarrow> nat \<Rightarrow> bytes" where
  "marshalVarUint64 dst n = dst @ varUint64 n"

text \<open>
  Modelled from the spec: \<^verbatim>\<open>encoding.MarshalBytes\<close>, missing from the sources. Spec 4.2:
  \<^verbatim>\<open>marshalBytes(dst, b)\<close> appends varint-length + b.
\<close>

definition marshalBytes :: "bytes \<Rightarrow> bytes \<Rightarrow> bytes" where
  "marshalBytes dst b = marshalVarUint64 dst (length b) @ b"

text \<open>
  Modelled from the spec: \<^verbatim>\<open>encoding.UnmarshalVarUint64\<close>, missing from the sources: reads
  a varint and returns the remaining bytes and the number; an error when the bytes end
  inside the varint.
\<close>

fun unmarshalVarUint64 :: "bytes \<Rightarrow> error + (bytes \<times> nat)" where
  "unmarshalVarUint64 [] = Inl CannotUnmarshalValue"
| "unmarshalVarUint64 (b # bs) =
     (if unat b < 128 then Inr (bs, unat b)
      else (case unmarshalVarUint64 bs of
              Inl e \<Rightarrow> Inl e
            | Inr (tail, n) \<Rightarrow> Inr (tail, (unat b - 128) + 128 * n)))"

text \<open>
  Modelled from the spec: \<^verbatim>\<open>encoding.UnmarshalBytes\<close>, missing from the sources. Spec 4.2:
  \<^verbatim>\<open>unmarshalBytes(buf) -> (remaining, slice)\<close>, the inverse of \<^verbatim>\<open>marshalBytes\<close>; an error
  when fewer bytes remain than the length says.
\<close>

definition unmarshalBytes :: "bytes \<Rightarrow> error + (bytes \<times> bytes)" where
  "unmarshalBytes src =
     (case unmarshalVarUint64 src of
        Inl e \<Rightarrow> Inl e
      | Inr (tail, n) \<Rightarrow>
          if length tail < n then Inl CannotUnmarshalValue
          else Inr (drop n tail, take n tail))"

text \<open>
  Modelled from the spec: \<^verbatim>\<open>encoding.MarshalInt64\<close>, missing from the sources. Spec 4.2:
  \<^verbatim>\<open>marshalI64(dst, x)\<close> appends a fixed-width 8-byte encoding; here the eight bytes of
  \<open>x\<close>, the high byte first.
\<close>

definition marshalInt64 :: "bytes \<Rightarrow> int64 \<Rightarrow> bytes" where
  "marshalInt64 dst v =
     dst @ [ucast (drop_bit 56 v), ucast (drop_bit 48 v), ucast (drop_bit 40 v),
            ucast (drop_bit 32 v), ucast (drop_bit 24 v), ucast (drop_bit 16 v),
            ucast (drop_bit 8 v), ucast v]"

lemma unmarshalVarUint64_varUint64:
  "unmarshalVarUint64 (varUint64 n @ rest) = Inr (rest, n)"
proof (induction n rule: varUint64.induct)
  case (1 n)
  show ?case
  proof (cases "n < 128")
    case True
    then have "unat (of_nat n :: byte) = n"
      by (simp add: unat_of_nat)
    with True show ?thesis
      by (subst varUint64.simps) simp
  next
    case False
    have lt: "n mod 128 + 128 < 256"
      using mod_less_divisor [of 128 n] by linarith
    then have u: "unat (of_nat (n mod 128 + 128) :: byte) = n mod 128 + 128"
      by (simp only: unat_of_nat) simp
    from False 1 have ih: "unmarshalVarUint64 (varUint64 (n div 128) @ rest) = Inr (rest, n div 128)"
      by simp
    show ?thesis
      using False u ih by (subst varUint64.simps) simp
  qed
qed

lemma unmarshalVarUint64_shorter:
  "unmarshalVarUint64 src = Inr (tail, n) \<Longrightarrow> length tail < length src"
  by (induction src arbitrary: tail n) (auto split: if_splits sum.splits)

lemma unmarshalBytes_shorter:
  "unmarshalBytes src = Inr (tail, v) \<Longrightarrow> length tail < length src"
  by (auto simp: unmarshalBytes_def split: sum.splits if_splits dest!: unmarshalVarUint64_shorter)

lemma unmarshalBytes_marshalBytes:
  "unmarshalBytes (marshalBytes [] b @ rest) = Inr (rest, b)"
  by (simp add: unmarshalBytes_def marshalBytes_def marshalVarUint64_def
      unmarshalVarUint64_varUint64)

lemma marshalBytes_append: "marshalBytes dst b = dst @ marshalBytes [] b"
  by (simp add: marshalBytes_def marshalVarUint64_def)

lemma marshalBytes_nonempty: "marshalBytes [] b \<noteq> []"
  by (simp add: marshalBytes_def marshalVarUint64_def varUint64.simps [of "length b"])


text \<open>\<^verbatim>\<open>strconv.FormatUint(n, 10)\<close> of Go's standard library: the decimal digits of n.\<close>

function formatUint :: "nat \<Rightarrow> bytes" where
  "formatUint n = (if n < 10 then [of_nat (48 + n)] else formatUint (n div 10) @ [of_nat (48 + n mod 10)])"
  by pat_completeness auto
termination
  by (relation "measure (\<lambda>n. n)") auto

declare formatUint.simps [simp del]

section \<open>Blocks at the stage boundary and the bitmap (pipes.go)\<close>

record BlockColumn =
  Name :: bytes
  Values :: "bytes list"

text \<open>The field name \<^verbatim>\<open>"*"\<close>.\<close>

definition star :: bytes where
  "star = [42]"

text \<open>
  Modelled from the spec: \<^verbatim>\<open>getBlockColumnIndex\<close> is not among the sources. It looks a
  field up in the block's column list; \<open>-1\<close> marks a missing column (spec 4.5).
\<close>

fun getBlockColumnIndex :: "BlockColumn list \<Rightarrow> bytes \<Rightarrow> int" where
  "getBlockColumnIndex [] f = -1"
| "getBlockColumnIndex (c # cs) f =
     (if Name c = f then 0
      else (let idx = getBlockColumnIndex cs f in if idx < 0 then -1 else idx + 1))"

definition appendBlockColumnIndexes :: "int list \<Rightarrow> BlockColumn list \<Rightarrow> bytes list \<Rightarrow> int list" where
  "appendBlockColumnIndexes dst columns fieldNames =
     fold (\<lambda>f dst. dst @ [getBlockColumnIndex columns f]) fieldNames dst"

text \<open>
  The bitmap (\<^verbatim>\<open>getFilterBitmap\<close>, \<^verbatim>\<open>getBitmap\<close>, \<^verbatim>\<open>setBits\<close>, \<^verbatim>\<open>forEachSetBit\<close>) is not
  among the sources; it is modelled from spec 4.4.1 as one boolean per row.
\<close>

type_synonym bitmap = "bool list"

text \<open>
  Modelled from the spec: \<^verbatim>\<open>getFilterBitmap\<close>, missing from the sources: a bitmap of width
  \<open>n\<close> with no bit set.
\<close>

definition getFilterBitmap :: "nat \<Rightarrow> bitmap" where
  "getFilterBitmap n = replicate n False"

text \<open>
  Modelled from the spec: \<^verbatim>\<open>getBitmap\<close>, missing from the sources: a bitmap of width \<open>n\<close>
  with no bit set.
\<close>

definition getBitmap :: "nat \<Rightarrow> bitmap" where
  "getBitmap n = replicate n False"

text \<open>
  Modelled from the spec: \<^verbatim>\<open>setBits\<close>, missing from the sources: sets every bit (spec
  4.4.1: start from the all-set bitmap of width N).
\<close>

definition setBits :: "bitmap \<Rightarrow> bitmap" where
  "setBits bm = map (\<lambda>_. True) bm"

text \<open>
  Modelled from the spec: \<^verbatim>\<open>forEachSetBit\<close>, missing from the sources: calls \<open>f\<close> on the
  index of every set bit, in order, and clears the bit when \<open>f\<close> answers false (spec
  4.4.1). The callbacks of the code can panic on an index, so \<open>f\<close> returns
  \<open>error + bool\<close>. \<open>forEachSetBitFrom i\<close> is the loop from bit \<open>i\<close> on.
\<close>

fun forEachSetBitFrom :: "nat \<Rightarrow> (nat \<Rightarrow> error + bool) \<Rightarrow> bitmap \<Rightarrow> error + bitmap" where
  "forEachSetBitFrom i f [] = Inr []"
| "forEachSetBitFrom i f (b # bm) =
     (if b then bindE (f i) (\<lambda>keep. bindE (forEachSetBitFrom (Suc i) f bm) (\<lambda>bm'. Inr (keep # bm')))
      else bindE (forEachSetBitFrom (Suc i) f bm) (\<lambda>bm'. Inr (False # bm')))"

text \<open>
  Modelled from the spec: \<^verbatim>\<open>forEachSetBit\<close>, missing from the sources, from the first bit.
\<close>

definition forEachSetBit :: "(nat \<Rightarrow> error + bool) \<Rightarrow> bitmap \<Rightarrow> error + bitmap" where
  "forEachSetBit f bm = forEachSetBitFrom 0 f bm"

text \<open>
  Modelled from the spec: \<^verbatim>\<open>forEachSetBit\<close>, missing from the sources, with a callback that
  only counts and keeps every bit: the number of set bits.
\<close>

definition countSetBits :: "bitmap \<Rightarrow> nat" where
  "countSetBits bm = length (filter (\<lambda>b. b) bm)"

text \<open>
  The value of the column at index \<open>idx\<close> in row \<open>i\<close>, the empty string for a missing
  column (\<open>idx < 0\<close>): \<^verbatim>\<open>v := ""; if idx >= 0 { v = columns[idx].Values[i] }\<close>.
\<close>

definition columnValueAt :: "BlockColumn list \<Rightarrow> int \<Rightarrow> nat \<Rightarrow> error + bytes" where
  "columnValueAt columns idx i =
     (if idx \<ge> 0 then bindE (at columns (nat idx)) (\<lambda>c. at (Values c) i) else Inr [])"

section \<open>The stats functions of pipes.go\<close>

record statsFuncCount =
  sfc_fields :: "bytes list"
  sfc_resultName :: bytes

record statsFuncCountProcessor =
  sfcp_sfc :: statsFuncCount
  sfcp_rowsCount :: uint64

record statsFuncUniq =
  sfu_fields :: "bytes list"
  sfu_resultName :: bytes

record statsFuncUniqProcessor =
  sfup_sfu :: statsFuncUniq
  sfup_m :: "bytes set"
  sfup_columnIdxs :: "int list"
  sfup_keyBuf :: bytes

definition sfcp_updateStatsForAllRows ::
  "statsFuncCountProcessor \<Rightarrow> int64 list \<Rightarrow> BlockColumn list \<Rightarrow> error + statsFuncCountProcessor" where
  "sfcp_updateStatsForAllRows sfcp timestamps columns =
     (let fields = sfc_fields (sfcp_sfc sfcp) in
      if length fields = 0 \<or> star \<in> set fields then
        Inr (sfcp\<lparr>sfcp_rowsCount := sfcp_rowsCount sfcp + of_nat (length timestamps)\<rparr>)
      else
        bindE (foldE (\<lambda>f bm.
                 let idx = getBlockColumnIndex columns f in
                 if idx \<ge> 0 then
                   bindE (at columns (nat idx)) (\<lambda>c.
                     forEachSetBit (\<lambda>i. bindE (at (Values c) i) (\<lambda>v. Inr (v = []))) bm)
                 else Inr bm)
               fields (setBits (getFilterBitmap (length timestamps))))
          (\<lambda>bm. let emptyValues = countSetBits bm in
             Inr (sfcp\<lparr>sfcp_rowsCount := sfcp_rowsCount sfcp + of_nat (length timestamps - emptyValues)\<rparr>)))"

text \<open>The loop over the fields returns at the first field with a non-empty value.\<close>

fun sfcp_rowLoop :: "BlockColumn list \<Rightarrow> nat \<Rightarrow> bytes list \<Rightarrow> error + bool" where
  "sfcp_rowLoop columns rowIdx [] = Inr False"
| "sfcp_rowLoop columns rowIdx (f # fs) =
     (let idx = getBlockColumnIndex columns f in
      if idx \<ge> 0 then
        bindE (columnValueAt columns idx rowIdx) (\<lambda>v.
          if v \<noteq> [] then Inr True else sfcp_rowLoop columns rowIdx fs)
      else sfcp_rowLoop columns rowIdx fs)"

definition sfcp_updateStatsForRow ::
  "statsFuncCountProcessor \<Rightarrow> int64 list \<Rightarrow> BlockColumn list \<Rightarrow> nat \<Rightarrow> error + statsFuncCountProcessor" where
  "sfcp_updateStatsForRow sfcp timestamps columns rowIdx =
     (let fields = sfc_fields (sfcp_sfc sfcp) in
      if length fields = 0 \<or> star \<in> set fields then
        Inr (sfcp\<lparr>sfcp_rowsCount := sfcp_rowsCount sfcp + 1\<rparr>)
      else
        bindE (sfcp_rowLoop columns rowIdx fields) (\<lambda>found.
          if found then Inr (sfcp\<lparr>sfcp_rowsCount := sfcp_rowsCount sfcp + 1\<rparr>) else Inr sfcp))"

definition sfcp_mergeState :: "statsFuncCountProcessor \<Rightarrow> statsFuncCountProcessor \<Rightarrow> statsFuncCountProcessor" where
  "sfcp_mergeState sfcp src = sfcp\<lparr>sfcp_rowsCount := sfcp_rowsCount sfcp + sfcp_rowsCount src\<rparr>"

definition sfcp_finalizeStats :: "statsFuncCountProcessor \<Rightarrow> bytes \<times> bytes" where
  "sfcp_finalizeStats sfcp = (sfc_resultName (sfcp_sfc sfcp), formatUint (unat (sfcp_rowsCount sfcp)))"

text \<open>
  The key of one row for several fields: each value is appended to \<open>keyBuf\<close> with
  \<open>marshalBytes\<close>; \<open>allEmptyValues\<close> stays true while every value is empty.
\<close>

definition appendKeyValue :: "bytes \<Rightarrow> bool \<times> bytes \<Rightarrow> bool \<times> bytes" where
  "appendKeyValue v st = (case st of (allEmptyValues, keyBuf) \<Rightarrow>
     ((if v \<noteq> [] then False else allEmptyValues), marshalBytes keyBuf v))"

definition sfup_updateStatsForAllRows ::
  "statsFuncUniqProcessor \<Rightarrow> int64 list \<Rightarrow> BlockColumn list \<Rightarrow> error + statsFuncUniqProcessor" where
  "sfup_updateStatsForAllRows sfup timestamps columns =
     (let fields = sfu_fields (sfup_sfu sfup); m = sfup_m sfup in
      if length fields = 1 then
        (let idx = getBlockColumnIndex columns (fields ! 0) in
         if idx \<ge> 0 then
           bindE (at columns (nat idx)) (\<lambda>c.
             Inr (sfup\<lparr>sfup_m := fold (\<lambda>v m. if v = [] then m else insert v m) (Values c) m\<rparr>))
         else Inr sfup)
      else
        (let columnIdxs = appendBlockColumnIndexes (take 0 (sfup_columnIdxs sfup)) columns fields in
         bindE (foldE (\<lambda>i st. case st of (m, keyBuf) \<Rightarrow>
                  bindE (foldE (\<lambda>idx st. bindE (columnValueAt columns idx i) (\<lambda>v. Inr (appendKeyValue v st)))
                           columnIdxs (True, take 0 keyBuf))
                    (\<lambda>r. case r of (allEmptyValues, keyBuf) \<Rightarrow>
                       if allEmptyValues then Inr (m, keyBuf) else Inr (insert keyBuf m, keyBuf)))
                [0..<length timestamps] (m, sfup_keyBuf sfup))
           (\<lambda>r. case r of (m, keyBuf) \<Rightarrow>
              Inr (sfup\<lparr>sfup_m := m, sfup_columnIdxs := columnIdxs, sfup_keyBuf := keyBuf\<rparr>))))"

text \<open>
  In \<open>updateStatsForRow\<close> the key of several fields is appended to \<^verbatim>\<open>sfup.keyBuf\<close> as it
  stands (\<^verbatim>\<open>keyBuf := sfup.keyBuf\<close>, with no \<^verbatim>\<open>[:0]\<close>), and the longer buffer is stored back
  before the test of \<open>allEmptyValues\<close>.
\<close>

definition sfup_updateStatsForRow ::
  "statsFuncUniqProcessor \<Rightarrow> int64 list \<Rightarrow> BlockColumn list \<Rightarrow> nat \<Rightarrow> error + statsFuncUniqProcessor" where
  "sfup_updateStatsForRow sfup timestamps columns rowIdx =
     (let fields = sfu_fields (sfup_sfu sfup); m = sfup_m sfup in
      if length fields = 1 then
        (let idx = getBlockColumnIndex columns (fields ! 0) in
         if idx \<ge> 0 then
           bindE (columnValueAt columns idx rowIdx) (\<lambda>v.
             if v = [] then Inr sfup else Inr (sfup\<lparr>sfup_m := insert v m\<rparr>))
         else Inr sfup)
      else
        bindE (foldE (\<lambda>f st. bindE (columnValueAt columns (getBlockColumnIndex columns f) rowIdx)
                                (\<lambda>v. Inr (appendKeyValue v st)))
                 fields (True, sfup_keyBuf sfup))
          (\<lambda>r. case r of (allEmptyValues, keyBuf) \<Rightarrow>
             if allEmptyValues then Inr (sfup\<lparr>sfup_keyBuf := keyBuf\<rparr>)
             else Inr (sfup\<lparr>sfup_keyBuf := keyBuf, sfup_m := insert keyBuf m\<rparr>)))"

definition sfup_mergeState :: "statsFuncUniqProcessor \<Rightarrow> statsFuncUniqProcessor \<Rightarrow> statsFuncUniqProcessor" where
  "sfup_mergeState sfup src = sfup\<lparr>sfup_m := sfup_m sfup \<union> sfup_m src\<rparr>"

definition sfup_finalizeStats :: "statsFuncUniqProcessor \<Rightarrow> bytes \<times> bytes" where
  "sfup_finalizeStats sfup = (sfu_resultName (sfup_sfu sfup), formatUint (card (sfup_m sfup)))"


section \<open>The stats pipe of pipes.go\<close>

text \<open>
  The interfaces \<^verbatim>\<open>statsFunc\<close> and \<^verbatim>\<open>statsFuncProcessor\<close> have two implementations
  each; a failed type assertion in \<open>mergeState\<close> is a panic.
\<close>

datatype statsFunc = StatsFuncCount statsFuncCount | StatsFuncUniq statsFuncUniq

datatype statsFuncProcessor = CountProcessor statsFuncCountProcessor | UniqProcessor statsFuncUniqProcessor

definition newStatsFuncProcessor :: "statsFunc \<Rightarrow> statsFuncProcessor" where
  "newStatsFuncProcessor f =
     (case f of
        StatsFuncCount sfc \<Rightarrow> CountProcessor \<lparr>sfcp_sfc = sfc, sfcp_rowsCount = 0\<rparr>
      | StatsFuncUniq sfu \<Rightarrow>
          UniqProcessor \<lparr>sfup_sfu = sfu, sfup_m = {}, sfup_columnIdxs = [], sfup_keyBuf = []\<rparr>)"

definition updateStatsForAllRows ::
  "statsFuncProcessor \<Rightarrow> int64 list \<Rightarrow> BlockColumn list \<Rightarrow> error + statsFuncProcessor" where
  "updateStatsForAllRows sfp timestamps columns =
     (case sfp of
        CountProcessor sfcp \<Rightarrow>
          bindE (sfcp_updateStatsForAllRows sfcp timestamps columns) (\<lambda>p. Inr (CountProcessor p))
      | UniqProcessor sfup \<Rightarrow>
          bindE (sfup_updateStatsForAllRows sfup timestamps columns) (\<lambda>p. Inr (UniqProcessor p)))"

definition updateStatsForRow ::
  "statsFuncProcessor \<Rightarrow> int64 list \<Rightarrow> BlockColumn list \<Rightarrow> nat \<Rightarrow> error + statsFuncProcessor" where
  "updateStatsForRow sfp timestamps columns rowIdx =
     (case sfp of
        CountProcessor sfcp \<Rightarrow>
          bindE (sfcp_updateStatsForRow sfcp timestamps columns rowIdx) (\<lambda>p. Inr (CountProcessor p))
      | UniqProcessor sfup \<Rightarrow>
          bindE (sfup_updateStatsForRow sfup timestamps columns rowIdx) (\<lambda>p. Inr (UniqProcessor p)))"

fun mergeState :: "statsFuncProcessor \<Rightarrow> statsFuncProcessor \<Rightarrow> error + statsFuncProcessor" where
  "mergeState (CountProcessor sfcp) (CountProcessor src) = Inr (CountProcessor (sfcp_mergeState sfcp src))"
| "mergeState (UniqProcessor sfup) (UniqProcessor src) = Inr (UniqProcessor (sfup_mergeState sfup src))"
| "mergeState _ _ = Inl TypeAssertionFailed"

definition finalizeStats :: "statsFuncProcessor \<Rightarrow> bytes \<times> bytes" where
  "finalizeStats sfp =
     (case sfp of CountProcessor sfcp \<Rightarrow> sfcp_finalizeStats sfcp | UniqProcessor sfup \<Rightarrow> sfup_finalizeStats sfup)"

record statsPipe =
  sp_byFields :: "bytes list"
  sp_funcs :: "statsFunc list"

record statsPipeGroup =
  spg_sfps :: "statsFuncProcessor list"

text \<open>
  A Go map from group keys to groups, as an association list with distinct keys: a new
  key goes to the end, and a loop over the map visits the list in order (Go leaves the
  order open). The groups are pointers in Go; here a group changed in place is stored back
  under its key.
\<close>

type_synonym groupMap = "(bytes \<times> statsPipeGroup) list"

record statsPipeProcessorShard =
  shard_m :: groupMap
  shard_funcs :: "statsFunc list"
  shard_columnIdxs :: "int list"
  shard_keyBuf :: bytes

text \<open>
  \<open>spp_stopCh\<close> says whether \<^verbatim>\<open>stopCh\<close> is closed; it is taken as fixed during a call.
  The blocks written to \<^verbatim>\<open>ppBase\<close> are the result of \<open>flush\<close>; \<^verbatim>\<open>cancel()\<close> and
  \<^verbatim>\<open>ppBase.flush()\<close> are not modelled.
\<close>

record statsPipeProcessor =
  spp_sp :: statsPipe
  spp_stopCh :: bool
  spp_shards :: "statsPipeProcessorShard list"

type_synonym outBlock = "nat \<times> int64 list \<times> BlockColumn list"

definition newPipeProcessor :: "statsPipe \<Rightarrow> nat \<Rightarrow> bool \<Rightarrow> statsPipeProcessor" where
  "newPipeProcessor sp workersCount stopCh =
     \<lparr>spp_sp = sp, spp_stopCh = stopCh,
      spp_shards = replicate workersCount
        \<lparr>shard_m = [], shard_funcs = sp_funcs sp, shard_columnIdxs = [], shard_keyBuf = []\<rparr>\<rparr>"

definition getStatsPipeGroup :: "statsPipeProcessorShard \<Rightarrow> bytes \<Rightarrow> statsPipeProcessorShard \<times> statsPipeGroup" where
  "getStatsPipeGroup shard key =
     (case map_of (shard_m shard) key of
        Some spg \<Rightarrow> (shard, spg)
      | None \<Rightarrow>
          (let spg = \<lparr>spg_sfps = map newStatsFuncProcessor (shard_funcs shard)\<rparr>
           in (shard\<lparr>shard_m := shard_m shard @ [(key, spg)]\<rparr>, spg)))"

definition storeGroup :: "statsPipeProcessorShard \<Rightarrow> bytes \<Rightarrow> statsPipeGroup \<Rightarrow> statsPipeProcessorShard" where
  "storeGroup shard key spg = shard\<lparr>shard_m := AList.update key spg (shard_m shard)\<rparr>"

definition buildGroupKey :: "BlockColumn list \<Rightarrow> int list \<Rightarrow> nat \<Rightarrow> bytes \<Rightarrow> error + bytes" where
  "buildGroupKey columns columnIdxs i keyBuf =
     foldE (\<lambda>idx keyBuf. bindE (columnValueAt columns idx i) (\<lambda>v. Inr (marshalBytes keyBuf v)))
       columnIdxs (take 0 keyBuf)"

definition writeBlockRow ::
  "int64 list \<Rightarrow> BlockColumn list \<Rightarrow> int list \<Rightarrow> nat \<Rightarrow> statsPipeProcessorShard \<times> bytes
     \<Rightarrow> error + statsPipeProcessorShard \<times> bytes" where
  "writeBlockRow timestamps columns columnIdxs i st =
     (case st of (shard, keyBuf) \<Rightarrow>
        bindE (buildGroupKey columns columnIdxs i keyBuf) (\<lambda>keyBuf.
          case getStatsPipeGroup shard keyBuf of (shard, spg) \<Rightarrow>
            bindE (mapE (\<lambda>sfp. updateStatsForRow sfp timestamps columns i) (spg_sfps spg)) (\<lambda>sfps.
              Inr (storeGroup shard keyBuf (spg\<lparr>spg_sfps := sfps\<rparr>), keyBuf))))"

definition writeBlockShard ::
  "bytes list \<Rightarrow> statsPipeProcessorShard \<Rightarrow> int64 list \<Rightarrow> BlockColumn list \<Rightarrow> error + statsPipeProcessorShard" where
  "writeBlockShard byFields shard timestamps columns =
     (if length byFields = 0 then
        (case getStatsPipeGroup shard [] of (shard, spg) \<Rightarrow>
           bindE (mapE (\<lambda>sfp. updateStatsForAllRows sfp timestamps columns) (spg_sfps spg)) (\<lambda>sfps.
             Inr (storeGroup shard [] (spg\<lparr>spg_sfps := sfps\<rparr>))))
      else
        (let columnIdxs = appendBlockColumnIndexes (take 0 (shard_columnIdxs shard)) columns byFields;
             shard = shard\<lparr>shard_columnIdxs := columnIdxs\<rparr>
         in bindE (foldE (writeBlockRow timestamps columns columnIdxs) [0..<length timestamps]
                     (shard, shard_keyBuf shard))
              (\<lambda>r. case r of (shard, keyBuf) \<Rightarrow> Inr (shard\<lparr>shard_keyBuf := keyBuf\<rparr>))))"

definition writeBlock ::
  "statsPipeProcessor \<Rightarrow> nat \<Rightarrow> int64 list \<Rightarrow> BlockColumn list \<Rightarrow> error + statsPipeProcessor" where
  "writeBlock spp workerID timestamps columns =
     bindE (at (spp_shards spp) workerID) (\<lambda>shard.
       bindE (writeBlockShard (sp_byFields (spp_sp spp)) shard timestamps columns) (\<lambda>shard.
         Inr (spp\<lparr>spp_shards := (spp_shards spp)[workerID := shard]\<rparr>)))"

text \<open>The loop of \<open>flush\<close> that decodes a group key: \<^verbatim>\<open>for len(keyBuf) > 0 { ... }\<close>.\<close>

function unmarshalValues :: "bytes \<Rightarrow> bytes list \<Rightarrow> error + bytes list" where
  "unmarshalValues keyBuf values =
     (if length keyBuf > 0 then
        (case unmarshalBytes keyBuf of
           Inl e \<Rightarrow> Inl CannotUnmarshalValue
         | Inr (tail, v) \<Rightarrow> unmarshalValues tail (values @ [v]))
      else Inr values)"
  by pat_completeness auto
termination
  by (relation "measure (\<lambda>(keyBuf, values). length keyBuf)") (auto dest: unmarshalBytes_shorter)

declare unmarshalValues.simps [simp del]

definition mergeSfps :: "statsFuncProcessor list \<Rightarrow> statsFuncProcessor list \<Rightarrow> error + statsFuncProcessor list" where
  "mergeSfps base other =
     mapE (\<lambda>i. bindE (at other i) (\<lambda>src. mergeState (base ! i) src)) [0..<length base]"

definition mergeGroup :: "groupMap \<Rightarrow> bytes \<Rightarrow> statsPipeGroup \<Rightarrow> error + groupMap" where
  "mergeGroup m key spg =
     (case map_of m key of
        None \<Rightarrow> Inr (m @ [(key, spg)])
      | Some spgBase \<Rightarrow>
          bindE (mergeSfps (spg_sfps spgBase) (spg_sfps spg)) (\<lambda>sfps.
            Inr (AList.update key (spgBase\<lparr>spg_sfps := sfps\<rparr>) m)))"

text \<open>
  The two loops that merge the shards; \<open>None\<close> is the early \<^verbatim>\<open>return\<close> taken when
  \<^verbatim>\<open>stopCh\<close> is closed.
\<close>

fun mergeShardGroups :: "bool \<Rightarrow> groupMap \<Rightarrow> groupMap \<Rightarrow> error + groupMap option" where
  "mergeShardGroups stop [] m = Inr (Some m)"
| "mergeShardGroups stop ((key, spg) # rest) m =
     (if stop then Inr None else bindE (mergeGroup m key spg) (mergeShardGroups stop rest))"

fun mergeShards :: "bool \<Rightarrow> statsPipeProcessorShard list \<Rightarrow> groupMap \<Rightarrow> error + groupMap option" where
  "mergeShards stop [] m = Inr (Some m)"
| "mergeShards stop (shard # shards) m =
     bindE (mergeShardGroups stop (shard_m shard) m)
       (\<lambda>r. case r of None \<Rightarrow> Inr None | Some m \<Rightarrow> mergeShards stop shards m)"

definition groupColumns :: "bytes list \<Rightarrow> bytes list \<Rightarrow> statsPipeGroup \<Rightarrow> BlockColumn list" where
  "groupColumns byFields values spg =
     map (\<lambda>i. \<lparr>Name = byFields ! i, Values = take 1 (drop i values)\<rparr>) [0..<length byFields]
     @ map (\<lambda>sfp. case finalizeStats sfp of (name, value) \<Rightarrow> \<lparr>Name = name, Values = [value]\<rparr>) (spg_sfps spg)"

fun emitGroups :: "bool \<Rightarrow> bytes list \<Rightarrow> groupMap \<Rightarrow> error + outBlock list" where
  "emitGroups stop byFields [] = Inr []"
| "emitGroups stop byFields ((key, spg) # rest) =
     (if stop then Inr []
      else bindE (unmarshalValues key []) (\<lambda>values.
        if length values \<noteq> length byFields
        then Inl (UnexpectedNumberOfValues (length values) (length byFields))
        else bindE (emitGroups stop byFields rest) (\<lambda>out.
          Inr ((0, [0], groupColumns byFields values spg) # out))))"

text \<open>
  \<open>flush\<close>. After \<^verbatim>\<open>shards = shards[1:]\<close> the name \<open>shards\<close> stands for the shards but
  the first, and the special case of zero matching rows reads \<^verbatim>\<open>shards[0]\<close> of that.
\<close>

definition flush :: "statsPipeProcessor \<Rightarrow> error + outBlock list" where
  "flush spp =
     bindE (at (spp_shards spp) 0) (\<lambda>shard0.
       let m = shard_m shard0;
           shards = drop 1 (spp_shards spp);
           byFields = sp_byFields (spp_sp spp)
       in bindE (mergeShards (spp_stopCh spp) shards m) (\<lambda>r.
            case r of
              None \<Rightarrow> Inr []
            | Some m \<Rightarrow>
                bindE (if length byFields = 0 \<and> length m = 0
                       then bindE (at shards 0) (\<lambda>shard. Inr (shard_m (fst (getStatsPipeGroup shard []))))
                       else Inr m)
                  (emitGroups (spp_stopCh spp) byFields)))"

text \<open>
  The runtime of spec 4.6: the workers write their blocks, each under its worker id, and
  one \<open>flush\<close> follows.
\<close>

definition runStatsPipe ::
  "statsPipe \<Rightarrow> nat \<Rightarrow> (nat \<times> int64 list \<times> BlockColumn list) list \<Rightarrow> error + outBlock list" where
  "runStatsPipe sp workersCount writes =
     bindE (foldE (\<lambda>w spp. case w of (workerID, timestamps, columns) \<Rightarrow> writeBlock spp workerID timestamps columns)
              writes (newPipeProcessor sp workersCount False))
       flush"


section \<open>The block reader's view: blockResult\<close>

text \<open>
  The types \<^verbatim>\<open>blockResult\<close> and \<^verbatim>\<open>blockResultColumn\<close>, their accessors and the
  \<^verbatim>\<open>valueType\<close> constants are not among the sources; they are modelled from spec 3 and
  4.1.
\<close>

text \<open>
  Modelled from the spec: the \<^verbatim>\<open>valueType\<close> constants, missing from the sources. Spec 3
  names the value types string, dict, u8, u16, u32, u64, f64, ipv4 and iso8601-timestamp;
  the code converts them to a byte. The tags are distinct bytes; the numbers chosen here
  are not used beyond that.
\<close>

type_synonym valueType = byte

definition valueTypeString :: valueType where "valueTypeString = 1"
definition valueTypeDict :: valueType where "valueTypeDict = 2"
definition valueTypeUint8 :: valueType where "valueTypeUint8 = 3"
definition valueTypeUint16 :: valueType where "valueTypeUint16 = 4"
definition valueTypeUint32 :: valueType where "valueTypeUint32 = 5"
definition valueTypeUint64 :: valueType where "valueTypeUint64 = 6"
definition valueTypeFloat64 :: valueType where "valueTypeFloat64 = 7"
definition valueTypeIPv4 :: valueType where "valueTypeIPv4 = 8"
definition valueTypeTimestampISO8601 :: valueType where "valueTypeTimestampISO8601 = 9"

lemmas valueType_defs =
  valueTypeString_def valueTypeDict_def valueTypeUint8_def valueTypeUint16_def valueTypeUint32_def
  valueTypeUint64_def valueTypeFloat64_def valueTypeIPv4_def valueTypeTimestampISO8601_def

text \<open>
  Modelled from the spec: the type \<^verbatim>\<open>blockResultColumn\<close>, missing from the sources. Spec 3:
  a column is const (one encoded value for all rows), time (the values of its rows are
  the timestamps of the block), dict (a dictionary and one index byte per row) or plain
  with a value type (one encoded value per row).
\<close>

record blockResultColumn =
  c_name :: bytes
  c_isConst :: bool
  c_isTime :: bool
  c_valueType :: valueType
  c_dictValues :: "bytes list"
  c_encodedValues :: "bytes list"

text \<open>
  Modelled from the spec: the type \<^verbatim>\<open>blockResult\<close>, missing from the sources. Spec 3: a
  block is N timestamps and a set of columns addressable by name.
\<close>

record blockResult =
  br_timestamps :: "int64 list"
  br_columns :: "blockResultColumn list"

text \<open>
  The decoders of the numeric value types and the text of a timestamp are parameters: the
  sources do not hold them.
\<close>

record codec =
  decodeValue :: "valueType \<Rightarrow> bytes \<Rightarrow> bytes"
  formatTime :: "int64 \<Rightarrow> bytes"

text \<open>
  Modelled from the spec: \<^verbatim>\<open>getColumns\<close>, missing from the sources: the columns of the
  block (spec 4.1).
\<close>

definition getColumns :: "blockResult \<Rightarrow> blockResultColumn list" where
  "getColumns br = br_columns br"

text \<open>
  Modelled from the spec: the column that \<^verbatim>\<open>getColumnByName\<close>, missing from the sources,
  returns for an absent name: a const column with the empty value (spec 4.1).
\<close>

definition emptyConstColumn :: "bytes \<Rightarrow> blockResultColumn" where
  "emptyConstColumn columnName =
     \<lparr>c_name = columnName, c_isConst = True, c_isTime = False, c_valueType = 0,
      c_dictValues = [], c_encodedValues = [[]]\<rparr>"

text \<open>
  Modelled from the spec: \<^verbatim>\<open>getColumnByName\<close>, missing from the sources: the column of
  that name, and the const-empty column when there is none (spec 4.1).
\<close>

definition getColumnByName :: "blockResult \<Rightarrow> bytes \<Rightarrow> blockResultColumn" where
  "getColumnByName br columnName =
     (case find (\<lambda>c. c_name c = columnName) (br_columns br) of
        Some c \<Rightarrow> c
      | None \<Rightarrow> emptyConstColumn columnName)"

text \<open>
  Modelled from the spec: \<^verbatim>\<open>getEncodedValues\<close>, missing from the sources: the raw byte
  strings of the column (spec 3).
\<close>

definition getEncodedValues :: "blockResultColumn \<Rightarrow> blockResult \<Rightarrow> bytes list" where
  "getEncodedValues c br = c_encodedValues c"

text \<open>
  Modelled from the spec: \<^verbatim>\<open>getValueAtRow\<close>, missing from the sources: the decoded text of
  the column in a row (spec 3): the one value of a const column, the text of the row's
  timestamp for the time column, the encoded value itself for a string column, the
  dictionary entry of the row's index byte for a dict column, the decoded value otherwise.
\<close>

definition getValueAtRow :: "codec \<Rightarrow> blockResultColumn \<Rightarrow> blockResult \<Rightarrow> nat \<Rightarrow> bytes" where
  "getValueAtRow cd c br rowIdx =
     (if c_isConst c then c_encodedValues c ! 0
      else if c_isTime c then formatTime cd (br_timestamps br ! rowIdx)
      else if c_valueType c = valueTypeString then c_encodedValues c ! rowIdx
      else if c_valueType c = valueTypeDict then c_dictValues c ! unat (c_encodedValues c ! rowIdx ! 0)
      else decodeValue cd (c_valueType c) (c_encodedValues c ! rowIdx))"

text \<open>
  Modelled from the spec: \<^verbatim>\<open>getValues\<close>, missing from the sources: the N decoded texts
  of the column (spec 3).
\<close>

definition getValues :: "codec \<Rightarrow> blockResultColumn \<Rightarrow> blockResult \<Rightarrow> bytes list" where
  "getValues cd c br = map (getValueAtRow cd c br) [0..<length (br_timestamps br)]"

text \<open>\<^verbatim>\<open>slices.Index\<close> of Go's standard library: the first index of a value, or \<open>-1\<close>.\<close>

fun slicesIndex :: "'a list \<Rightarrow> 'a \<Rightarrow> int" where
  "slicesIndex [] v = -1"
| "slicesIndex (x # xs) v =
     (if x = v then 0 else (let idx = slicesIndex xs v in if idx < 0 then -1 else idx + 1))"

section \<open>count: stats_count.go\<close>

record statsCount =
  sc_fields :: "bytes list"
  sc_containsStar :: bool

record statsCountProcessor =
  scp_sc :: statsCount
  scp_rowsCount :: uint64

text \<open>The value types of the third case of the switch, which always hold a value.\<close>

definition isNumericValueType :: "valueType \<Rightarrow> bool" where
  "isNumericValueType vt \<longleftrightarrow>
     vt = valueTypeUint8 \<or> vt = valueTypeUint16 \<or> vt = valueTypeUint32 \<or> vt = valueTypeUint64 \<or>
     vt = valueTypeFloat64 \<or> vt = valueTypeIPv4 \<or> vt = valueTypeTimestampISO8601"

definition scp_addRows :: "statsCountProcessor \<Rightarrow> nat \<Rightarrow> statsCountProcessor" where
  "scp_addRows scp n = scp\<lparr>scp_rowsCount := scp_rowsCount scp + of_nat n\<rparr>"

text \<open>
  The loop over the fields of the slow path. \<open>None\<close>: the function has added
  \<^verbatim>\<open>len(br.timestamps)\<close> and returned inside the loop; \<open>Some bm\<close>: the loop has ended with
  the bitmap \<open>bm\<close>.
\<close>

fun scp_fieldsLoop :: "blockResult \<Rightarrow> bytes list \<Rightarrow> bitmap \<Rightarrow> error + bitmap option" where
  "scp_fieldsLoop br [] bm = Inr (Some bm)"
| "scp_fieldsLoop br (f # fs) bm =
     (let c = getColumnByName br f in
      if c_isConst c then
        bindE (at (c_encodedValues c) 0) (\<lambda>v. if v \<noteq> [] then Inr None else scp_fieldsLoop br fs bm)
      else if c_isTime c then Inr None
      else if c_valueType c = valueTypeString then
        bindE (forEachSetBit (\<lambda>i. bindE (at (c_encodedValues c) i) (\<lambda>v. Inr (v = []))) bm)
          (scp_fieldsLoop br fs)
      else if c_valueType c = valueTypeDict then
        (if [] \<notin> set (c_dictValues c) then Inr None
         else bindE (forEachSetBit (\<lambda>i.
                  bindE (at (c_encodedValues c) i) (\<lambda>e.
                    bindE (at e 0) (\<lambda>dictIdx.
                      bindE (at (c_dictValues c) (unat dictIdx)) (\<lambda>v. Inr (v = []))))) bm)
                (scp_fieldsLoop br fs))
      else if isNumericValueType (c_valueType c) then Inr None
      else Inl (UnknownValueType (c_valueType c)))"

definition scp_updateStatsForAllRows :: "statsCountProcessor \<Rightarrow> blockResult \<Rightarrow> error + statsCountProcessor" where
  "scp_updateStatsForAllRows scp br =
     (let fields = sc_fields (scp_sc scp); n = length (br_timestamps br) in
      if sc_containsStar (scp_sc scp) then Inr (scp_addRows scp n)
      else if length fields = 1 then
        (let c = getColumnByName br (fields ! 0) in
         if c_isConst c then
           bindE (at (c_encodedValues c) 0) (\<lambda>v. if v \<noteq> [] then Inr (scp_addRows scp n) else Inr scp)
         else if c_isTime c then Inr (scp_addRows scp n)
         else if c_valueType c = valueTypeString then
           Inr (fold (\<lambda>v scp. if v \<noteq> [] then scp_addRows scp 1 else scp) (c_encodedValues c) scp)
         else if c_valueType c = valueTypeDict then
           (let zeroDictIdx = slicesIndex (c_dictValues c) [] in
            if zeroDictIdx < 0 then Inr (scp_addRows scp n)
            else foldE (\<lambda>v scp. bindE (at v 0) (\<lambda>b.
                     if int (unat b) \<noteq> zeroDictIdx then Inr (scp_addRows scp 1) else Inr scp))
                   (c_encodedValues c) scp)
         else if isNumericValueType (c_valueType c) then Inr (scp_addRows scp n)
         else Inl (UnknownValueType (c_valueType c)))
      else
        bindE (scp_fieldsLoop br fields (setBits (getBitmap n))) (\<lambda>r.
          case r of
            None \<Rightarrow> Inr (scp_addRows scp n)
          | Some bm \<Rightarrow>
              Inr ((scp_addRows scp n)\<lparr>scp_rowsCount := scp_rowsCount (scp_addRows scp n) - of_nat (countSetBits bm)\<rparr>)))"

definition scp_updateStatsForRow ::
  "codec \<Rightarrow> statsCountProcessor \<Rightarrow> blockResult \<Rightarrow> nat \<Rightarrow> error + statsCountProcessor" where
  "scp_updateStatsForRow cd scp br rowIdx =
     (let fields = sc_fields (scp_sc scp) in
      if sc_containsStar (scp_sc scp) then Inr (scp_addRows scp 1)
      else if length fields = 1 then
        (let c = getColumnByName br (fields ! 0) in
         if c_isConst c then
           bindE (at (c_encodedValues c) 0) (\<lambda>v. if v \<noteq> [] then Inr (scp_addRows scp 1) else Inr scp)
         else if c_isTime c then Inr (scp_addRows scp 1)
         else if c_valueType c = valueTypeString then
           bindE (at (c_encodedValues c) rowIdx) (\<lambda>v. if v \<noteq> [] then Inr (scp_addRows scp 1) else Inr scp)
         else if c_valueType c = valueTypeDict then
           bindE (at (c_encodedValues c) rowIdx) (\<lambda>e.
             bindE (at e 0) (\<lambda>dictIdx.
               bindE (at (c_dictValues c) (unat dictIdx)) (\<lambda>v.
                 if v \<noteq> [] then Inr (scp_addRows scp 1) else Inr scp)))
         else if isNumericValueType (c_valueType c) then Inr (scp_addRows scp 1)
         else Inl (UnknownValueType (c_valueType c)))
      else
        (if list_ex (\<lambda>f. getValueAtRow cd (getColumnByName br f) br rowIdx \<noteq> []) fields
         then Inr (scp_addRows scp 1) else Inr scp))"

definition scp_mergeState :: "statsCountProcessor \<Rightarrow> statsCountProcessor \<Rightarrow> statsCountProcessor" where
  "scp_mergeState scp src = scp\<lparr>scp_rowsCount := scp_rowsCount scp + scp_rowsCount src\<rparr>"


definition getFieldsIgnoreStar :: "bytes list \<Rightarrow> bytes list" where
  "getFieldsIgnoreStar fieldNames = filter (\<lambda>f. f \<noteq> star) fieldNames"

section \<open>uniq: stats_uniq.go\<close>

text \<open>
  The processor's scratch buffers \<^verbatim>\<open>keyBuf\<close> and \<^verbatim>\<open>columnValues\<close> are read only as
  \<^verbatim>\<open>sup.keyBuf[:0]\<close> and \<^verbatim>\<open>sup.columnValues[:0]\<close>, that is with length 0, so they are no part
  of the state here. The \<open>int\<close> that the update functions return (the growth of the state
  in bytes) is not modelled.
\<close>

record statsUniq =
  su_fields :: "bytes list"
  su_containsStar :: bool

record statsUniqProcessor =
  sup_su :: statsUniq
  sup_m :: "bytes set"

text \<open>
  The loop that sets \<open>seenKey\<close>: it stays true when the row is not the first one and every
  column has the value of the row before.
\<close>

definition seenKey :: "bytes list list \<Rightarrow> nat \<Rightarrow> bool" where
  "seenKey columnValues i = list_all (\<lambda>values. \<not> (i = 0 \<or> values ! (i - 1) \<noteq> values ! i)) columnValues"

text \<open>The key of a row for \<open>*\<close>: the name and the value of every column.\<close>

definition sup_starKey :: "codec \<Rightarrow> blockResult \<Rightarrow> nat \<Rightarrow> bool \<times> bytes" where
  "sup_starKey cd br i =
     fold (\<lambda>c st. case st of (allEmptyValues, keyBuf) \<Rightarrow>
             (let v = getValueAtRow cd c br i
              in ((if v \<noteq> [] then False else allEmptyValues),
                  marshalBytes (marshalBytes keyBuf (c_name c)) v)))
       (getColumns br) (True, [])"

definition sup_insertKey :: "bool \<times> bytes \<Rightarrow> bytes set \<Rightarrow> bytes set" where
  "sup_insertKey r m = (case r of (allEmptyValues, keyBuf) \<Rightarrow> if allEmptyValues then m else insert keyBuf m)"

definition sup_starRow :: "codec \<Rightarrow> blockResult \<Rightarrow> nat \<Rightarrow> bytes set \<Rightarrow> bytes set" where
  "sup_starRow cd br i m =
     (if seenKey (map (\<lambda>c. getValues cd c br) (getColumns br)) i then m
      else sup_insertKey (sup_starKey cd br i) m)"

definition sup_timeRow :: "int64 list \<Rightarrow> nat \<Rightarrow> bytes set \<Rightarrow> bytes set" where
  "sup_timeRow timestamps i m =
     (if i > 0 \<and> timestamps ! (i - 1) = timestamps ! i then m
      else insert (marshalInt64 [1] (timestamps ! i)) m)"

definition sup_dictEntry :: "bytes list \<Rightarrow> nat \<Rightarrow> bytes set \<Rightarrow> bytes set" where
  "sup_dictEntry dictValues i m =
     (if dictValues ! i = [] then m else insert [0, valueTypeDict, of_nat i] m)"

definition sup_plainRow :: "valueType \<Rightarrow> bytes list \<Rightarrow> nat \<Rightarrow> bytes set \<Rightarrow> bytes set" where
  "sup_plainRow vt encodedValues i m =
     (let v = encodedValues ! i in
      if vt = valueTypeString \<and> v = [] then m
      else if i > 0 \<and> encodedValues ! (i - 1) = v then m
      else insert ([0, vt] @ v) m)"

definition sup_multiKey :: "bytes list list \<Rightarrow> nat \<Rightarrow> bool \<times> bytes" where
  "sup_multiKey columnValues i = fold (\<lambda>values st. appendKeyValue (values ! i) st) columnValues (True, [])"

definition sup_multiRow :: "bytes list list \<Rightarrow> nat \<Rightarrow> bytes set \<Rightarrow> bytes set" where
  "sup_multiRow columnValues i m =
     (if seenKey columnValues i then m else sup_insertKey (sup_multiKey columnValues i) m)"

definition sup_updateStatsForAllRows ::
  "codec \<Rightarrow> statsUniqProcessor \<Rightarrow> blockResult \<Rightarrow> error + statsUniqProcessor" where
  "sup_updateStatsForAllRows cd usp br =
     (let fields = su_fields (sup_su usp); m = sup_m usp in
      if su_containsStar (sup_su usp) then
        Inr (usp\<lparr>sup_m := fold (sup_starRow cd br) [0..<length (br_timestamps br)] m\<rparr>)
      else if length fields = 1 then
        (let c = getColumnByName br (fields ! 0) in
         if c_isTime c then
           Inr (usp\<lparr>sup_m := fold (sup_timeRow (br_timestamps br)) [0..<length (br_timestamps br)] m\<rparr>)
         else if c_isConst c then
           bindE (at (c_encodedValues c) 0) (\<lambda>v.
             if v = [] then Inr usp
             else Inr (usp\<lparr>sup_m := insert ([0, valueTypeString] @ v) m\<rparr>))
         else if c_valueType c = valueTypeDict then
           Inr (usp\<lparr>sup_m := fold (sup_dictEntry (c_dictValues c)) [0..<length (c_dictValues c)] m\<rparr>)
         else
           (let encodedValues = getEncodedValues c br in
            Inr (usp\<lparr>sup_m := fold (sup_plainRow (c_valueType c) encodedValues) [0..<length encodedValues] m\<rparr>)))
      else
        (let columnValues = map (\<lambda>f. getValues cd (getColumnByName br f) br) fields in
         Inr (usp\<lparr>sup_m := fold (sup_multiRow columnValues) [0..<length (br_timestamps br)] m\<rparr>)))"

definition sup_fieldsKey :: "codec \<Rightarrow> blockResult \<Rightarrow> bytes list \<Rightarrow> nat \<Rightarrow> bool \<times> bytes" where
  "sup_fieldsKey cd br fieldNames rowIdx =
     fold (\<lambda>f st. appendKeyValue (getValueAtRow cd (getColumnByName br f) br rowIdx) st) fieldNames (True, [])"

definition sup_updateStatsForRow ::
  "codec \<Rightarrow> statsUniqProcessor \<Rightarrow> blockResult \<Rightarrow> nat \<Rightarrow> error + statsUniqProcessor" where
  "sup_updateStatsForRow cd usp br rowIdx =
     (let fields = su_fields (sup_su usp); m = sup_m usp in
      if su_containsStar (sup_su usp) then
        Inr (usp\<lparr>sup_m := sup_insertKey (sup_starKey cd br rowIdx) m\<rparr>)
      else if length fields = 1 then
        (let c = getColumnByName br (fields ! 0) in
         if c_isTime c then
           bindE (at (br_timestamps br) rowIdx) (\<lambda>timestamp.
             Inr (usp\<lparr>sup_m := insert (marshalInt64 [1] timestamp) m\<rparr>))
         else if c_isConst c then
           bindE (at (c_encodedValues c) 0) (\<lambda>v.
             if v = [] then Inr usp
             else Inr (usp\<lparr>sup_m := insert ([0, valueTypeString] @ v) m\<rparr>))
         else if c_valueType c = valueTypeDict then
           bindE (at (c_encodedValues c) rowIdx) (\<lambda>e.
             bindE (at e 0) (\<lambda>dictIdx.
               bindE (at (c_dictValues c) (unat dictIdx)) (\<lambda>dv.
                 if dv = [] then Inr usp
                 else Inr (usp\<lparr>sup_m := insert [0, valueTypeDict, dictIdx] m\<rparr>))))
         else
           bindE (at (getEncodedValues c br) rowIdx) (\<lambda>v.
             if c_valueType c = valueTypeString \<and> v = [] then Inr usp
             else Inr (usp\<lparr>sup_m := insert ([0, c_valueType c] @ v) m\<rparr>)))
      else
        Inr (usp\<lparr>sup_m := sup_insertKey (sup_fieldsKey cd br fields rowIdx) m\<rparr>))"

definition sup_mergeState :: "statsUniqProcessor \<Rightarrow> statsUniqProcessor \<Rightarrow> statsUniqProcessor" where
  "sup_mergeState usp src = usp\<lparr>sup_m := sup_m usp \<union> sup_m src\<rparr>"


section \<open>Runs of the stats pipe on concrete inputs\<close>

lemmas pipe_eval_defs =
  Let_def runStatsPipe_def newPipeProcessor_def writeBlock_def at_def bindE_def writeBlockShard_def
  appendBlockColumnIndexes_def writeBlockRow_def buildGroupKey_def columnValueAt_def
  getStatsPipeGroup_def storeGroup_def newStatsFuncProcessor_def updateStatsForRow_def
  updateStatsForAllRows_def sfup_updateStatsForRow_def appendKeyValue_def marshalBytes_def
  marshalVarUint64_def varUint64.simps flush_def unmarshalValues.simps unmarshalBytes_def
  groupColumns_def finalizeStats_def sfup_finalizeStats_def formatUint.simps sfcp_finalizeStats_def
  sfcp_updateStatsForRow_def sfcp_updateStatsForAllRows_def sfup_updateStatsForAllRows_def
  mergeGroup_def mergeSfps_def sfup_mergeState_def sfcp_mergeState_def numeral_2_eq_2

text \<open>
  Claim C10. For \<^verbatim>\<open>uniq(a, b)\<close> the key that \<open>updateStatsForRow\<close> inserts should depend
  on the given row only. In the code the scratch buffer is not emptied at the start of a
  call: from a fresh processor, two calls on two equal rows \<open>(a = x, b = y)\<close> insert the
  key of the row and then that key twice over, so the key set has two members where the
  rows have one projection.
\<close>

theorem C10_updateStatsForRow_keeps_keyBuf:
  "bindE (sfup_updateStatsForRow
            \<lparr>sfup_sfu = \<lparr>sfu_fields = [[97], [98]], sfu_resultName = [117]\<rparr>,
             sfup_m = {}, sfup_columnIdxs = [], sfup_keyBuf = []\<rparr>
            [0, 0] [\<lparr>Name = [97], Values = [[120], [120]]\<rparr>, \<lparr>Name = [98], Values = [[121], [121]]\<rparr>] 0)
     (\<lambda>sfup. sfup_updateStatsForRow sfup
            [0, 0] [\<lparr>Name = [97], Values = [[120], [120]]\<rparr>, \<lparr>Name = [98], Values = [[121], [121]]\<rparr>] 1)
   = Inr \<lparr>sfup_sfu = \<lparr>sfu_fields = [[97], [98]], sfu_resultName = [117]\<rparr>,
          sfup_m = {[1, 120, 1, 121], [1, 120, 1, 121, 1, 120, 1, 121]},
          sfup_columnIdxs = [], sfup_keyBuf = [1, 120, 1, 121, 1, 120, 1, 121]\<rparr>"
  by (simp add: pipe_eval_defs insert_commute)

text \<open>
  Claim C4. With empty \<open>byFields\<close> and no input, \<open>flush\<close> should emit one row. With one
  worker it does not: after \<^verbatim>\<open>shards = shards[1:]\<close> no shard is left, and the special case
  of zero matching rows indexes \<^verbatim>\<open>shards[0]\<close>, a panic of the Go runtime.
\<close>

theorem C4_flush_one_worker_no_input:
  "flush (newPipeProcessor \<lparr>sp_byFields = [], sp_funcs = funcs\<rparr> 1 stopCh) = Inl IndexOutOfRange"
  by (simp add: pipe_eval_defs)

text \<open>
  Claim C3. The same input through one shard and through two shards should give the same
  output rows. For \<^verbatim>\<open>stats by (g) uniq(a, b) as u\<close> and two blocks of one row
  \<open>(g = 1, a = x, b = y)\<close> each, one shard reports \<open>u = 2\<close> and two shards report \<open>u = 1\<close>.
\<close>

theorem C3_one_shard_differs_from_two:
  "runStatsPipe \<lparr>sp_byFields = [[103]],
                 sp_funcs = [StatsFuncUniq \<lparr>sfu_fields = [[97], [98]], sfu_resultName = [117]\<rparr>]\<rparr> 1
     [(0, [0], [\<lparr>Name = [103], Values = [[49]]\<rparr>, \<lparr>Name = [97], Values = [[120]]\<rparr>, \<lparr>Name = [98], Values = [[121]]\<rparr>]),
      (0, [0], [\<lparr>Name = [103], Values = [[49]]\<rparr>, \<lparr>Name = [97], Values = [[120]]\<rparr>, \<lparr>Name = [98], Values = [[121]]\<rparr>])]
   = Inr [(0, [0], [\<lparr>Name = [103], Values = [[49]]\<rparr>, \<lparr>Name = [117], Values = [[50]]\<rparr>])]
   \<and>
   runStatsPipe \<lparr>sp_byFields = [[103]],
                 sp_funcs = [StatsFuncUniq \<lparr>sfu_fields = [[97], [98]], sfu_resultName = [117]\<rparr>]\<rparr> 2
     [(0, [0], [\<lparr>Name = [103], Values = [[49]]\<rparr>, \<lparr>Name = [97], Values = [[120]]\<rparr>, \<lparr>Name = [98], Values = [[121]]\<rparr>]),
      (1, [0], [\<lparr>Name = [103], Values = [[49]]\<rparr>, \<lparr>Name = [97], Values = [[120]]\<rparr>, \<lparr>Name = [98], Values = [[121]]\<rparr>])]
   = Inr [(0, [0], [\<lparr>Name = [103], Values = [[49]]\<rparr>, \<lparr>Name = [117], Values = [[49]]\<rparr>])]"
  by (simp add: pipe_eval_defs)

section \<open>Merging states\<close>

lemma scp_mergeState_fold:
  "scp_rowsCount (fold (\<lambda>src scp. scp_mergeState scp src) srcs scp)
     = scp_rowsCount scp + sum_mset (image_mset scp_rowsCount (mset srcs))"
  by (induction srcs arbitrary: scp) (simp_all add: scp_mergeState_def add.assoc)

lemma sfcp_mergeState_fold:
  "sfcp_rowsCount (fold (\<lambda>src sfcp. sfcp_mergeState sfcp src) srcs sfcp)
     = sfcp_rowsCount sfcp + sum_mset (image_mset sfcp_rowsCount (mset srcs))"
  by (induction srcs arbitrary: sfcp) (simp_all add: sfcp_mergeState_def add.assoc)

lemma sup_mergeState_fold:
  "sup_m (fold (\<lambda>src usp. sup_mergeState usp src) srcs usp) = sup_m usp \<union> \<Union> (sup_m ` set srcs)"
  by (induction srcs arbitrary: usp) (auto simp: sup_mergeState_def)

lemma sfup_mergeState_fold:
  "sfup_m (fold (\<lambda>src sfup. sfup_mergeState sfup src) srcs sfup) = sfup_m sfup \<union> \<Union> (sfup_m ` set srcs)"
  by (induction srcs arbitrary: sfup) (auto simp: sfup_mergeState_def)

text \<open>
  Claim C7. \<open>mergeState\<close> adds the counters of two count states and takes the union of the
  key sets of two uniq states, in stats_count.go, stats_uniq.go and pipes.go alike. So it
  is commutative and associative on the count total and on the key set, and merging any
  list of partial states into a state gives the sum over the multiset of their counters,
  or the union over the set of their key sets, whatever the order.
\<close>

theorem C7_mergeState_commutative_associative:
  "scp_rowsCount (scp_mergeState a b) = scp_rowsCount a + scp_rowsCount b
   \<and> scp_rowsCount (scp_mergeState a b) = scp_rowsCount (scp_mergeState b a)
   \<and> scp_rowsCount (scp_mergeState (scp_mergeState a b) c) = scp_rowsCount (scp_mergeState a (scp_mergeState b c))
   \<and> scp_rowsCount (fold (\<lambda>src scp. scp_mergeState scp src) srcs a)
        = scp_rowsCount a + sum_mset (image_mset scp_rowsCount (mset srcs))
   \<and> sfcp_rowsCount (sfcp_mergeState fa fb) = sfcp_rowsCount fa + sfcp_rowsCount fb
   \<and> sfcp_rowsCount (sfcp_mergeState fa fb) = sfcp_rowsCount (sfcp_mergeState fb fa)
   \<and> sfcp_rowsCount (sfcp_mergeState (sfcp_mergeState fa fb) fc) = sfcp_rowsCount (sfcp_mergeState fa (sfcp_mergeState fb fc))
   \<and> sfcp_rowsCount (fold (\<lambda>src sfcp. sfcp_mergeState sfcp src) fsrcs fa)
        = sfcp_rowsCount fa + sum_mset (image_mset sfcp_rowsCount (mset fsrcs))
   \<and> sup_m (sup_mergeState u v) = sup_m u \<union> sup_m v
   \<and> sup_m (sup_mergeState u v) = sup_m (sup_mergeState v u)
   \<and> sup_m (sup_mergeState (sup_mergeState u v) w) = sup_m (sup_mergeState u (sup_mergeState v w))
   \<and> sup_m (fold (\<lambda>src usp. sup_mergeState usp src) usrcs u) = sup_m u \<union> \<Union> (sup_m ` set usrcs)
   \<and> sfup_m (sfup_mergeState fu fv) = sfup_m fu \<union> sfup_m fv
   \<and> sfup_m (sfup_mergeState fu fv) = sfup_m (sfup_mergeState fv fu)
   \<and> sfup_m (sfup_mergeState (sfup_mergeState fu fv) fw) = sfup_m (sfup_mergeState fu (sfup_mergeState fv fw))
   \<and> sfup_m (fold (\<lambda>src sfup. sfup_mergeState sfup src) fusrcs fu) = sfup_m fu \<union> \<Union> (sfup_m ` set fusrcs)"
proof -
  have count: "scp_rowsCount (scp_mergeState a b) = scp_rowsCount a + scp_rowsCount b"
    "scp_rowsCount (scp_mergeState a b) = scp_rowsCount (scp_mergeState b a)"
    "scp_rowsCount (scp_mergeState (scp_mergeState a b) c) = scp_rowsCount (scp_mergeState a (scp_mergeState b c))"
    by (simp_all add: scp_mergeState_def add.commute add.assoc)
  have fcount: "sfcp_rowsCount (sfcp_mergeState fa fb) = sfcp_rowsCount fa + sfcp_rowsCount fb"
    "sfcp_rowsCount (sfcp_mergeState fa fb) = sfcp_rowsCount (sfcp_mergeState fb fa)"
    "sfcp_rowsCount (sfcp_mergeState (sfcp_mergeState fa fb) fc) = sfcp_rowsCount (sfcp_mergeState fa (sfcp_mergeState fb fc))"
    by (simp_all add: sfcp_mergeState_def add.commute add.assoc)
  have uniq: "sup_m (sup_mergeState u v) = sup_m u \<union> sup_m v"
    "sup_m (sup_mergeState u v) = sup_m (sup_mergeState v u)"
    "sup_m (sup_mergeState (sup_mergeState u v) w) = sup_m (sup_mergeState u (sup_mergeState v w))"
    by (auto simp: sup_mergeState_def)
  have funiq: "sfup_m (sfup_mergeState fu fv) = sfup_m fu \<union> sfup_m fv"
    "sfup_m (sfup_mergeState fu fv) = sfup_m (sfup_mergeState fv fu)"
    "sfup_m (sfup_mergeState (sfup_mergeState fu fv) fw) = sfup_m (sfup_mergeState fu (sfup_mergeState fv fw))"
    by (auto simp: sfup_mergeState_def)
  show ?thesis
    using count fcount uniq funiq
    by (simp only: scp_mergeState_fold sfcp_mergeState_fold sup_mergeState_fold sfup_mergeState_fold simp_thms)
qed

section \<open>The key sets of the loops of stats_uniq.go\<close>

lemma fold_insert_if:
  "fold (\<lambda>i m. if skip i then m else insert (key i) m) xs m = m \<union> key ` {i \<in> set xs. \<not> skip i}"
  by (induction xs arbitrary: m) auto

lemma sup_insertKey_eq:
  "sup_insertKey r m = (if fst r then m else insert (snd r) m)"
  by (simp add: sup_insertKey_def split: prod.splits)

lemma sup_timeRow_fold:
  "fold (sup_timeRow ts) xs m
     = m \<union> (\<lambda>i. marshalInt64 [1] (ts ! i)) ` {i \<in> set xs. \<not> (0 < i \<and> ts ! (i - 1) = ts ! i)}"
proof -
  have "sup_timeRow ts = (\<lambda>i m. if 0 < i \<and> ts ! (i - 1) = ts ! i then m else insert (marshalInt64 [1] (ts ! i)) m)"
    by (intro ext) (simp add: sup_timeRow_def)
  then show ?thesis by (simp only: fold_insert_if)
qed

lemma sup_dictEntry_fold:
  "fold (sup_dictEntry dv) xs m = m \<union> (\<lambda>i. [0, valueTypeDict, of_nat i]) ` {i \<in> set xs. dv ! i \<noteq> []}"
proof -
  have "sup_dictEntry dv = (\<lambda>i m. if dv ! i = [] then m else insert [0, valueTypeDict, of_nat i] m)"
    by (intro ext) (simp add: sup_dictEntry_def)
  then show ?thesis by (simp only: fold_insert_if)
qed

lemma sup_plainRow_fold:
  "fold (sup_plainRow vt ev) xs m
     = m \<union> (\<lambda>i. [0, vt] @ ev ! i) `
           {i \<in> set xs. \<not> ((vt = valueTypeString \<and> ev ! i = []) \<or> (0 < i \<and> ev ! (i - 1) = ev ! i))}"
proof -
  have "sup_plainRow vt ev = (\<lambda>i m. if (vt = valueTypeString \<and> ev ! i = []) \<or> (0 < i \<and> ev ! (i - 1) = ev ! i)
                                then m else insert ([0, vt] @ ev ! i) m)"
    by (intro ext) (simp add: sup_plainRow_def Let_def)
  then show ?thesis by (simp only: fold_insert_if)
qed

lemma sup_starRow_fold:
  "fold (sup_starRow cd br) xs m
     = m \<union> (\<lambda>i. snd (sup_starKey cd br i)) `
           {i \<in> set xs. \<not> (seenKey (map (\<lambda>c. getValues cd c br) (getColumns br)) i \<or> fst (sup_starKey cd br i))}"
proof -
  have "sup_starRow cd br = (\<lambda>i m. if seenKey (map (\<lambda>c. getValues cd c br) (getColumns br)) i \<or> fst (sup_starKey cd br i)
                               then m else insert (snd (sup_starKey cd br i)) m)"
    by (intro ext) (simp add: sup_starRow_def sup_insertKey_eq)
  then show ?thesis by (simp only: fold_insert_if)
qed

lemma sup_multiRow_fold:
  "fold (sup_multiRow cvs) xs m
     = m \<union> (\<lambda>i. snd (sup_multiKey cvs i)) ` {i \<in> set xs. \<not> (seenKey cvs i \<or> fst (sup_multiKey cvs i))}"
proof -
  have "sup_multiRow cvs = (\<lambda>i m. if seenKey cvs i \<or> fst (sup_multiKey cvs i)
                               then m else insert (snd (sup_multiKey cvs i)) m)"
    by (intro ext) (simp add: sup_multiRow_def sup_insertKey_eq)
  then show ?thesis by (simp only: fold_insert_if)
qed

text \<open>
  Skipping a row is harmless when the row is empty, or has the key of the row before it
  and is empty exactly when that row is.
\<close>

lemma run_collapse:
  assumes "\<And>i::nat. i < n \<Longrightarrow> skip i \<Longrightarrow>
             blank i \<or> (0 < i \<and> key i = key (i - 1) \<and> (blank i \<longleftrightarrow> blank (i - 1)))"
  shows "key ` {i. i < n \<and> \<not> (skip i \<or> blank i)} = key ` {i. i < n \<and> \<not> blank i}"
proof
  show "key ` {i. i < n \<and> \<not> (skip i \<or> blank i)} \<subseteq> key ` {i. i < n \<and> \<not> blank i}"
    by auto
next
  have "i < n \<Longrightarrow> \<not> blank i \<Longrightarrow> key i \<in> key ` {i. i < n \<and> \<not> (skip i \<or> blank i)}" for i
  proof (induction i rule: less_induct)
    case (less i)
    show ?case
    proof (cases "skip i")
      case False
      with less.prems show ?thesis by blast
    next
      case True
      with assms [of i] less.prems
      have pos: "0 < i" and eq: "key i = key (i - 1)" and ne: "\<not> blank (i - 1)"
        by auto
      from pos less.prems have "i - 1 < i" "i - 1 < n" by auto
      with less.IH [of "i - 1"] ne eq show ?thesis by simp
    qed
  qed
  then show "key ` {i. i < n \<and> \<not> blank i} \<subseteq> key ` {i. i < n \<and> \<not> (skip i \<or> blank i)}"
    by auto
qed

section \<open>Run collapse\<close>

text \<open>
  The loops of \<open>updateStatsForAllRows\<close> (stats_uniq.go) with the tests taken out that skip
  a row equal to the row before it: every row is processed. The const and the dict path
  have no such test.
\<close>

definition sup_starRow_noCollapse :: "codec \<Rightarrow> blockResult \<Rightarrow> nat \<Rightarrow> bytes set \<Rightarrow> bytes set" where
  "sup_starRow_noCollapse cd br i m = sup_insertKey (sup_starKey cd br i) m"

definition sup_timeRow_noCollapse :: "int64 list \<Rightarrow> nat \<Rightarrow> bytes set \<Rightarrow> bytes set" where
  "sup_timeRow_noCollapse timestamps i m = insert (marshalInt64 [1] (timestamps ! i)) m"

definition sup_plainRow_noCollapse :: "valueType \<Rightarrow> bytes list \<Rightarrow> nat \<Rightarrow> bytes set \<Rightarrow> bytes set" where
  "sup_plainRow_noCollapse vt encodedValues i m =
     (let v = encodedValues ! i in
      if vt = valueTypeString \<and> v = [] then m
      else insert ([0, vt] @ v) m)"

definition sup_multiRow_noCollapse :: "bytes list list \<Rightarrow> nat \<Rightarrow> bytes set \<Rightarrow> bytes set" where
  "sup_multiRow_noCollapse columnValues i m = sup_insertKey (sup_multiKey columnValues i) m"

definition sup_updateStatsForAllRows_noCollapse ::
  "codec \<Rightarrow> statsUniqProcessor \<Rightarrow> blockResult \<Rightarrow> error + statsUniqProcessor" where
  "sup_updateStatsForAllRows_noCollapse cd usp br =
     (let fields = su_fields (sup_su usp); m = sup_m usp in
      if su_containsStar (sup_su usp) then
        Inr (usp\<lparr>sup_m := fold (sup_starRow_noCollapse cd br) [0..<length (br_timestamps br)] m\<rparr>)
      else if length fields = 1 then
        (let c = getColumnByName br (fields ! 0) in
         if c_isTime c then
           Inr (usp\<lparr>sup_m := fold (sup_timeRow_noCollapse (br_timestamps br)) [0..<length (br_timestamps br)] m\<rparr>)
         else if c_isConst c then
           bindE (at (c_encodedValues c) 0) (\<lambda>v.
             if v = [] then Inr usp
             else Inr (usp\<lparr>sup_m := insert ([0, valueTypeString] @ v) m\<rparr>))
         else if c_valueType c = valueTypeDict then
           Inr (usp\<lparr>sup_m := fold (sup_dictEntry (c_dictValues c)) [0..<length (c_dictValues c)] m\<rparr>)
         else
           (let encodedValues = getEncodedValues c br in
            Inr (usp\<lparr>sup_m := fold (sup_plainRow_noCollapse (c_valueType c) encodedValues) [0..<length encodedValues] m\<rparr>)))
      else
        (let columnValues = map (\<lambda>f. getValues cd (getColumnByName br f) br) fields in
         Inr (usp\<lparr>sup_m := fold (sup_multiRow_noCollapse columnValues) [0..<length (br_timestamps br)] m\<rparr>)))"

lemma collapse_fold:
  assumes "\<And>i::nat. i < n \<Longrightarrow> skip i \<Longrightarrow>
             blank i \<or> (0 < i \<and> key i = key (i - 1) \<and> (blank i \<longleftrightarrow> blank (i - 1)))"
  shows "fold (\<lambda>i m. if skip i \<or> blank i then m else insert (key i) m) [0..<n] m
           = fold (\<lambda>i m. if blank i then m else insert (key i) m) [0..<n] m"
proof -
  have "key ` {i. i < n \<and> \<not> (skip i \<or> blank i)} = key ` {i. i < n \<and> \<not> blank i}"
    using assms by (rule run_collapse)
  then show ?thesis
    by (simp add: fold_insert_if)
qed

lemma seenKey_same:
  assumes "seenKey cvs i" "values \<in> set cvs"
  shows "0 < i \<and> values ! (i - 1) = values ! i"
  using assms by (auto simp: seenKey_def list_all_iff)

lemma sup_multiKey_Nil: "sup_multiKey [] i = (True, [])"
  by (simp add: sup_multiKey_def)

lemma sup_multiKey_seen:
  assumes "seenKey cvs i" "cvs \<noteq> []"
  shows "0 < i \<and> sup_multiKey cvs i = sup_multiKey cvs (i - 1)"
proof -
  from assms(2) obtain vs where "vs \<in> set cvs" by (cases cvs) auto
  with assms(1) have pos: "0 < i" by (auto dest: seenKey_same)
  have "fold (\<lambda>values st. appendKeyValue (values ! i) st) cvs st
          = fold (\<lambda>values st. appendKeyValue (values ! (i - 1)) st) cvs st" for st
    by (rule fold_cong) (use assms(1) in \<open>auto dest: seenKey_same\<close>)
  with pos show ?thesis by (simp add: sup_multiKey_def)
qed

lemma sup_multiRow_collapse:
  "fold (sup_multiRow cvs) [0..<n] m = fold (sup_multiRow_noCollapse cvs) [0..<n] m"
proof -
  have a: "sup_multiRow cvs = (\<lambda>i m. if seenKey cvs i \<or> fst (sup_multiKey cvs i)
                               then m else insert (snd (sup_multiKey cvs i)) m)"
    by (intro ext) (simp add: sup_multiRow_def sup_insertKey_eq)
  have b: "sup_multiRow_noCollapse cvs = (\<lambda>i m. if fst (sup_multiKey cvs i)
                               then m else insert (snd (sup_multiKey cvs i)) m)"
    by (intro ext) (simp add: sup_multiRow_noCollapse_def sup_insertKey_eq)
  have "fst (sup_multiKey cvs i) \<or>
          (0 < i \<and> snd (sup_multiKey cvs i) = snd (sup_multiKey cvs (i - 1)) \<and>
           (fst (sup_multiKey cvs i) \<longleftrightarrow> fst (sup_multiKey cvs (i - 1))))"
    if "seenKey cvs i" for i
  proof (cases "cvs = []")
    case True
    then show ?thesis by (simp add: sup_multiKey_Nil)
  next
    case False
    with that sup_multiKey_seen [of cvs i] show ?thesis by simp
  qed
  then show ?thesis
    unfolding a b by (intro collapse_fold) blast
qed

lemma getValues_nth:
  "i < length (br_timestamps br) \<Longrightarrow> getValues cd c br ! i = getValueAtRow cd c br i"
  by (simp add: getValues_def)

lemma sup_starKey_seen:
  assumes "seenKey (map (\<lambda>c. getValues cd c br) (getColumns br)) i" "getColumns br \<noteq> []"
    "i < length (br_timestamps br)"
  shows "0 < i \<and> sup_starKey cd br i = sup_starKey cd br (i - 1)"
proof -
  have same: "0 < i \<and> getValues cd c br ! (i - 1) = getValues cd c br ! i" if "c \<in> set (getColumns br)" for c
    using assms(1) that by (intro seenKey_same [where cvs = "map (\<lambda>c. getValues cd c br) (getColumns br)"]) auto
  from assms(2) obtain c where "c \<in> set (getColumns br)" by (cases "getColumns br") auto
  with same have pos: "0 < i" by blast
  have val: "getValueAtRow cd c br (i - 1) = getValueAtRow cd c br i" if "c \<in> set (getColumns br)" for c
    using same [OF that] assms(3) pos by (simp add: getValues_nth)
  have "fold (\<lambda>c st. case st of (allEmptyValues, keyBuf) \<Rightarrow>
             (let v = getValueAtRow cd c br i
              in ((if v \<noteq> [] then False else allEmptyValues),
                  marshalBytes (marshalBytes keyBuf (c_name c)) v))) (getColumns br) st
      = fold (\<lambda>c st. case st of (allEmptyValues, keyBuf) \<Rightarrow>
             (let v = getValueAtRow cd c br (i - 1)
              in ((if v \<noteq> [] then False else allEmptyValues),
                  marshalBytes (marshalBytes keyBuf (c_name c)) v))) (getColumns br) st" for st
    by (rule fold_cong) (use val in auto)
  with pos show ?thesis by (simp add: sup_starKey_def)
qed

lemma sup_starRow_collapse:
  "fold (sup_starRow cd br) [0..<length (br_timestamps br)] m
     = fold (sup_starRow_noCollapse cd br) [0..<length (br_timestamps br)] m"
proof -
  let ?seen = "seenKey (map (\<lambda>c. getValues cd c br) (getColumns br))"
  have a: "sup_starRow cd br = (\<lambda>i m. if ?seen i \<or> fst (sup_starKey cd br i)
                               then m else insert (snd (sup_starKey cd br i)) m)"
    by (intro ext) (simp add: sup_starRow_def sup_insertKey_eq)
  have b: "sup_starRow_noCollapse cd br = (\<lambda>i m. if fst (sup_starKey cd br i)
                               then m else insert (snd (sup_starKey cd br i)) m)"
    by (intro ext) (simp add: sup_starRow_noCollapse_def sup_insertKey_eq)
  have "fst (sup_starKey cd br i) \<or>
          (0 < i \<and> snd (sup_starKey cd br i) = snd (sup_starKey cd br (i - 1)) \<and>
           (fst (sup_starKey cd br i) \<longleftrightarrow> fst (sup_starKey cd br (i - 1))))"
    if "?seen i" "i < length (br_timestamps br)" for i
  proof (cases "getColumns br = []")
    case True
    then show ?thesis by (simp add: sup_starKey_def)
  next
    case False
    with that sup_starKey_seen [of cd br i] show ?thesis by simp
  qed
  then show ?thesis
    unfolding a b by (intro collapse_fold) blast
qed

lemma sup_timeRow_collapse:
  "fold (sup_timeRow ts) [0..<n] m = fold (sup_timeRow_noCollapse ts) [0..<n] m"
proof -
  have a: "sup_timeRow ts = (\<lambda>i m. if (0 < i \<and> ts ! (i - 1) = ts ! i) \<or> False
                               then m else insert (marshalInt64 [1] (ts ! i)) m)"
    by (intro ext) (simp add: sup_timeRow_def)
  have b: "sup_timeRow_noCollapse ts = (\<lambda>i m. if False then m else insert (marshalInt64 [1] (ts ! i)) m)"
    by (intro ext) (simp add: sup_timeRow_noCollapse_def)
  show ?thesis
    unfolding a b by (intro collapse_fold) auto
qed

lemma sup_plainRow_collapse:
  "fold (sup_plainRow vt ev) [0..<n] m = fold (sup_plainRow_noCollapse vt ev) [0..<n] m"
proof -
  have a: "sup_plainRow vt ev = (\<lambda>i m. if (0 < i \<and> ev ! (i - 1) = ev ! i) \<or> (vt = valueTypeString \<and> ev ! i = [])
                               then m else insert ([0, vt] @ ev ! i) m)"
    by (intro ext) (simp add: sup_plainRow_def Let_def)
  have b: "sup_plainRow_noCollapse vt ev = (\<lambda>i m. if vt = valueTypeString \<and> ev ! i = []
                               then m else insert ([0, vt] @ ev ! i) m)"
    by (intro ext) (simp add: sup_plainRow_noCollapse_def Let_def)
  show ?thesis
    unfolding a b by (intro collapse_fold) auto
qed

text \<open>
  Claim C6. For every uniq state and every block, \<open>updateStatsForAllRows\<close> with its run
  collapse (a row is skipped when every column has the value of the row before, or when
  its encoded value or timestamp equals the one before) ends in the same state as the
  same function processing every row.
\<close>

theorem C6_run_collapse_keeps_key_set:
  "sup_updateStatsForAllRows cd usp br = sup_updateStatsForAllRows_noCollapse cd usp br"
  by (simp add: sup_updateStatsForAllRows_def sup_updateStatsForAllRows_noCollapse_def Let_def
      sup_starRow_collapse sup_timeRow_collapse sup_plainRow_collapse sup_multiRow_collapse)

section \<open>Row by row: the key sets of updateStatsForRow\<close>

lemma foldE_rows:
  assumes "\<And>i p. i \<in> set xs \<Longrightarrow> sup_su p = sup_su usp \<Longrightarrow>
             step i p = Inr (p\<lparr>sup_m := (if skip i then sup_m p else insert (key i) (sup_m p))\<rparr>)"
  shows "foldE step xs (usp :: statsUniqProcessor)
           = Inr (usp\<lparr>sup_m := sup_m usp \<union> key ` {i \<in> set xs. \<not> skip i}\<rparr>)"
  using assms
proof (induction xs arbitrary: usp)
  case Nil
  then show ?case by simp
next
  case (Cons x xs)
  let ?p = "usp\<lparr>sup_m := (if skip x then sup_m usp else insert (key x) (sup_m usp))\<rparr>"
  have step: "step x usp = Inr ?p"
    using Cons.prems [of x usp] by simp
  have "foldE step xs ?p = Inr (?p\<lparr>sup_m := sup_m ?p \<union> key ` {i \<in> set xs. \<not> skip i}\<rparr>)"
    by (rule Cons.IH) (use Cons.prems in simp)
  moreover have "sup_m ?p \<union> key ` {i \<in> set xs. \<not> skip i} = sup_m usp \<union> key ` {i \<in> set (x # xs). \<not> skip i}"
    by auto
  ultimately show ?case
    using step by (simp add: bindE_def)
qed

section \<open>The dict fast path\<close>

text \<open>The rows one by one: \<open>updateStatsForRow\<close> on the rows \<open>0, ..., N - 1\<close> in turn.\<close>

definition sup_updateStatsRowByRow ::
  "codec \<Rightarrow> statsUniqProcessor \<Rightarrow> blockResult \<Rightarrow> error + statsUniqProcessor" where
  "sup_updateStatsRowByRow cd usp br =
     foldE (\<lambda>i p. sup_updateStatsForRow cd p br i) [0..<length (br_timestamps br)] usp"

text \<open>
  Spec 3, I1 and the shape of a dict column: one index byte per row, each a valid index
  into the dictionary, and at most 256 dictionary entries.
\<close>

definition wfDictColumn :: "blockResult \<Rightarrow> blockResultColumn \<Rightarrow> bool" where
  "wfDictColumn br c \<longleftrightarrow>
     length (c_encodedValues c) = length (br_timestamps br) \<and>
     length (c_dictValues c) \<le> 256 \<and>
     list_all (\<lambda>e. e \<noteq> [] \<and> unat (e ! 0) < length (c_dictValues c)) (c_encodedValues c)"

definition isDictField :: "statsUniq \<Rightarrow> blockResult \<Rightarrow> blockResultColumn \<Rightarrow> bool" where
  "isDictField su br c \<longleftrightarrow>
     \<not> su_containsStar su \<and> length (su_fields su) = 1 \<and> getColumnByName br (su_fields su ! 0) = c \<and>
     \<not> c_isTime c \<and> \<not> c_isConst c \<and> c_valueType c = valueTypeDict"

lemma sup_updateStatsForAllRows_dict:
  assumes "isDictField (sup_su usp) br c"
  shows "sup_updateStatsForAllRows cd usp br
           = Inr (usp\<lparr>sup_m := sup_m usp \<union>
                    (\<lambda>i. [0, valueTypeDict, of_nat i]) ` {i. i < length (c_dictValues c) \<and> c_dictValues c ! i \<noteq> []}\<rparr>)"
proof -
  have "{i \<in> set [0..<length (c_dictValues c)]. c_dictValues c ! i \<noteq> []}
          = {i. i < length (c_dictValues c) \<and> c_dictValues c ! i \<noteq> []}"
    by auto
  then show ?thesis
    using assms by (simp add: sup_updateStatsForAllRows_def isDictField_def Let_def sup_dictEntry_fold)
qed

lemma sup_updateStatsForRow_dict:
  assumes "isDictField (sup_su p) br c" "wfDictColumn br c" "i < length (br_timestamps br)"
  shows "sup_updateStatsForRow cd p br i
           = Inr (p\<lparr>sup_m := (if c_dictValues c ! unat (c_encodedValues c ! i ! 0) = [] then sup_m p
                               else insert [0, valueTypeDict, c_encodedValues c ! i ! 0] (sup_m p))\<rparr>)"
proof -
  from assms(2,3) have len: "i < length (c_encodedValues c)"
    by (simp add: wfDictColumn_def)
  with assms(2) have e: "c_encodedValues c ! i \<noteq> []" "unat (c_encodedValues c ! i ! 0) < length (c_dictValues c)"
    by (auto simp: wfDictColumn_def list_all_length)
  show ?thesis
    using assms(1) len e
    by (simp add: sup_updateStatsForRow_def isDictField_def Let_def at_def bindE_def)
qed

lemma sup_updateStatsRowByRow_dict:
  assumes "isDictField (sup_su usp) br c" "wfDictColumn br c"
  shows "sup_updateStatsRowByRow cd usp br
           = Inr (usp\<lparr>sup_m := sup_m usp \<union>
                    (\<lambda>r. [0, valueTypeDict, c_encodedValues c ! r ! 0]) `
                      {r. r < length (br_timestamps br) \<and> c_dictValues c ! unat (c_encodedValues c ! r ! 0) \<noteq> []}\<rparr>)"
proof -
  have "foldE (\<lambda>i p. sup_updateStatsForRow cd p br i) [0..<length (br_timestamps br)] usp
      = Inr (usp\<lparr>sup_m := sup_m usp \<union> (\<lambda>r. [0, valueTypeDict, c_encodedValues c ! r ! 0]) `
               {r \<in> set [0..<length (br_timestamps br)]. \<not> (c_dictValues c ! unat (c_encodedValues c ! r ! 0) = [])}\<rparr>)"
  proof (rule foldE_rows)
    fix i and p :: statsUniqProcessor
    assume "i \<in> set [0..<length (br_timestamps br)]" "sup_su p = sup_su usp"
    with assms show "sup_updateStatsForRow cd p br i
           = Inr (p\<lparr>sup_m := (if c_dictValues c ! unat (c_encodedValues c ! i ! 0) = [] then sup_m p
                               else insert [0, valueTypeDict, c_encodedValues c ! i ! 0] (sup_m p))\<rparr>)"
      by (intro sup_updateStatsForRow_dict) simp_all
  qed
  moreover have "{r \<in> set [0..<length (br_timestamps br)]. \<not> (c_dictValues c ! unat (c_encodedValues c ! r ! 0) = [])}
      = {r. r < length (br_timestamps br) \<and> c_dictValues c ! unat (c_encodedValues c ! r ! 0) \<noteq> []}"
    by auto
  ultimately show ?thesis
    by (simp add: sup_updateStatsRowByRow_def)
qed

lemma statsUniqProcessor_m_eq:
  "usp\<lparr>sup_m := A\<rparr> = usp\<lparr>sup_m := B\<rparr> \<longleftrightarrow> A = B"
  by (cases usp) simp

lemma byte_of_nat_inj:
  assumes "(of_nat i :: byte) = b" "i < 256"
  shows "i = unat b"
  using assms by (auto simp: unat_of_nat)
text \<open>
  A codec for the examples: the text of an encoded value is its type tag followed by its
  bytes, the text of a timestamp its eight bytes.
\<close>

definition exampleCodec :: codec where
  "exampleCodec = \<lparr>decodeValue = (\<lambda>vt v. vt # v), formatTime = marshalInt64 []\<rparr>"

text \<open>
  Two blocks of one row with a dict column \<open>a\<close>: in the first the dictionary is
  \<open>["", "a"]\<close> and the row has index 1; in the second the dictionary is \<open>["a", "b"]\<close>
  and the row has index 0.
\<close>

definition exampleDictColumn1 :: blockResultColumn where
  "exampleDictColumn1 =
     \<lparr>c_name = [97], c_isConst = False, c_isTime = False, c_valueType = valueTypeDict,
      c_dictValues = [[], [97]], c_encodedValues = [[1]]\<rparr>"

definition exampleDictColumn2 :: blockResultColumn where
  "exampleDictColumn2 =
     \<lparr>c_name = [97], c_isConst = False, c_isTime = False, c_valueType = valueTypeDict,
      c_dictValues = [[97], [98]], c_encodedValues = [[0]]\<rparr>"

definition exampleUniqA :: statsUniqProcessor where
  "exampleUniqA = \<lparr>sup_su = \<lparr>su_fields = [[97]], su_containsStar = False\<rparr>, sup_m = {}\<rparr>"

lemmas example_defs =
  exampleCodec_def exampleDictColumn1_def exampleDictColumn2_def exampleUniqA_def

text \<open>
  Claim C8, as amended. For one field stored as a dict column, \<open>updateStatsForAllRows\<close>
  adds the key \<open>[0, DICT, i]\<close> of every non-empty dictionary entry \<open>i\<close>, whatever the
  rows hold. On a well-formed column the state equals the one reached row by row exactly
  when every non-empty dictionary entry whose key the state did not hold before is
  referenced by a row. (The claim said: every dictionary entry; an empty entry needs no
  reference, since neither path inserts a key for it.)
\<close>

theorem C8_dict_fast_path:
  assumes "isDictField (sup_su usp) br c" "wfDictColumn br c"
  shows "sup_updateStatsForAllRows cd usp br
           = Inr (usp\<lparr>sup_m := sup_m usp \<union>
                    (\<lambda>i. [0, valueTypeDict, of_nat i]) ` {i. i < length (c_dictValues c) \<and> c_dictValues c ! i \<noteq> []}\<rparr>)
         \<and> (sup_updateStatsForAllRows cd usp br = sup_updateStatsRowByRow cd usp br \<longleftrightarrow>
              (\<forall>i < length (c_dictValues c). c_dictValues c ! i \<noteq> [] \<longrightarrow>
                 [0, valueTypeDict, of_nat i] \<in> sup_m usp \<or>
                 (\<exists>r < length (br_timestamps br). unat (c_encodedValues c ! r ! 0) = i)))"
proof -
  let ?dv = "c_dictValues c" and ?ev = "c_encodedValues c" and ?n = "length (br_timestamps br)"
  let ?A = "(\<lambda>i. [0, valueTypeDict, of_nat i :: byte]) ` {i. i < length ?dv \<and> ?dv ! i \<noteq> []}"
  let ?R = "(\<lambda>r. [0, valueTypeDict, ?ev ! r ! 0]) ` {r. r < ?n \<and> ?dv ! unat (?ev ! r ! 0) \<noteq> []}"
  have all: "sup_updateStatsForAllRows cd usp br = Inr (usp\<lparr>sup_m := sup_m usp \<union> ?A\<rparr>)"
    using assms(1) by (rule sup_updateStatsForAllRows_dict)
  have rows: "sup_updateStatsRowByRow cd usp br = Inr (usp\<lparr>sup_m := sup_m usp \<union> ?R\<rparr>)"
    using assms by (rule sup_updateStatsRowByRow_dict)
  have inrange: "unat (?ev ! r ! 0) < length ?dv" if "r < ?n" for r
    using assms(2) that by (auto simp: wfDictColumn_def list_all_length)
  have len: "length ?dv \<le> 256"
    using assms(2) by (simp add: wfDictColumn_def)
  have sub: "?R \<subseteq> ?A"
  proof
    fix k assume "k \<in> ?R"
    then obtain r where r: "r < ?n" "?dv ! unat (?ev ! r ! 0) \<noteq> []" "k = [0, valueTypeDict, ?ev ! r ! 0]"
      by auto
    have "k = [0, valueTypeDict, of_nat (unat (?ev ! r ! 0))]"
      using r(3) by simp
    with r inrange [of r] show "k \<in> ?A" by blast
  qed
  have "sup_m usp \<union> ?A = sup_m usp \<union> ?R \<longleftrightarrow>
          (\<forall>i < length ?dv. ?dv ! i \<noteq> [] \<longrightarrow>
             [0, valueTypeDict, of_nat i] \<in> sup_m usp \<or> (\<exists>r < ?n. unat (?ev ! r ! 0) = i))"
    (is "?L \<longleftrightarrow> ?C")
  proof
    assume l: ?L
    show ?C
    proof (intro allI impI)
      fix i assume i: "i < length ?dv" "?dv ! i \<noteq> []"
      then have "[0, valueTypeDict, of_nat i] \<in> sup_m usp \<union> ?A" by blast
      with l have "[0, valueTypeDict, of_nat i] \<in> sup_m usp \<union> ?R" by simp
      then show "[0, valueTypeDict, of_nat i] \<in> sup_m usp \<or> (\<exists>r < ?n. unat (?ev ! r ! 0) = i)"
      proof
        assume "[0, valueTypeDict, of_nat i] \<in> sup_m usp"
        then show ?thesis ..
      next
        assume "[0, valueTypeDict, of_nat i] \<in> ?R"
        then obtain r where r: "r < ?n" "(of_nat i :: byte) = ?ev ! r ! 0" by auto
        from i(1) len have "i < 256" by simp
        with r(2) have "i = unat (?ev ! r ! 0)" by (rule byte_of_nat_inj)
        with r(1) show ?thesis by auto
      qed
    qed
  next
    assume c: ?C
    have "?A \<subseteq> sup_m usp \<union> ?R"
    proof
      fix k assume "k \<in> ?A"
      then obtain i where i: "i < length ?dv" "?dv ! i \<noteq> []" "k = [0, valueTypeDict, of_nat i]"
        by auto
      with c have "k \<in> sup_m usp \<or> (\<exists>r < ?n. unat (?ev ! r ! 0) = i)" by simp
      then show "k \<in> sup_m usp \<union> ?R"
      proof
        assume "k \<in> sup_m usp" then show ?thesis by simp
      next
        assume "\<exists>r < ?n. unat (?ev ! r ! 0) = i"
        then obtain r where r: "r < ?n" "unat (?ev ! r ! 0) = i" by blast
        then have "(of_nat i :: byte) = ?ev ! r ! 0" by auto
        with i r have "k \<in> ?R" by auto
        then show ?thesis by simp
      qed
    qed
    with sub show ?L by blast
  qed
  with all rows show ?thesis
    by (simp only: statsUniqProcessor_m_eq sum.inject simp_thms)
qed

theorem C8_dict_fast_path_witness:
  "isDictField (sup_su exampleUniqA) \<lparr>br_timestamps = [0], br_columns = [exampleDictColumn2]\<rparr> exampleDictColumn2
   \<and> wfDictColumn \<lparr>br_timestamps = [0], br_columns = [exampleDictColumn2]\<rparr> exampleDictColumn2
   \<and> sup_updateStatsForAllRows exampleCodec exampleUniqA \<lparr>br_timestamps = [0], br_columns = [exampleDictColumn2]\<rparr>
        = Inr (exampleUniqA\<lparr>sup_m := {[0, 2, 0], [0, 2, 1]}\<rparr>)
   \<and> sup_updateStatsForAllRows exampleCodec exampleUniqA \<lparr>br_timestamps = [0], br_columns = [exampleDictColumn2]\<rparr>
        \<noteq> sup_updateStatsRowByRow exampleCodec exampleUniqA \<lparr>br_timestamps = [0], br_columns = [exampleDictColumn2]\<rparr>"
proof -
  let ?br = "\<lparr>br_timestamps = [0], br_columns = [exampleDictColumn2]\<rparr>"
  have h1: "isDictField (sup_su exampleUniqA) ?br exampleDictColumn2"
    by (simp add: isDictField_def example_defs getColumnByName_def)
  have h2: "wfDictColumn ?br exampleDictColumn2"
    by (simp add: wfDictColumn_def example_defs)
  note t = C8_dict_fast_path [OF h1 h2, of exampleCodec]
  have idx: "{i. i < length (c_dictValues exampleDictColumn2) \<and> c_dictValues exampleDictColumn2 ! i \<noteq> []}
              = {0, Suc 0}"
    by (auto simp: example_defs less_Suc_eq numeral_2_eq_2)
  have keys: "(\<lambda>i. [0, valueTypeDict, of_nat i :: byte]) `
                {i. i < length (c_dictValues exampleDictColumn2) \<and> c_dictValues exampleDictColumn2 ! i \<noteq> []}
              = {[0, 2, 0], [0, 2, 1]}"
    unfolding idx by (simp add: valueTypeDict_def)
  have a: "sup_updateStatsForAllRows exampleCodec exampleUniqA ?br = Inr (exampleUniqA\<lparr>sup_m := {[0, 2, 0], [0, 2, 1]}\<rparr>)"
    using t [THEN conjunct1] unfolding keys by (simp add: exampleUniqA_def)
  have "\<not> (\<forall>i < length (c_dictValues exampleDictColumn2). c_dictValues exampleDictColumn2 ! i \<noteq> [] \<longrightarrow>
                 [0, valueTypeDict, of_nat i] \<in> sup_m exampleUniqA \<or>
                 (\<exists>r < length (br_timestamps ?br). unat (c_encodedValues exampleDictColumn2 ! r ! 0) = i))"
    by (auto simp: example_defs intro!: exI [of _ 1])
  with t [THEN conjunct2] have b: "sup_updateStatsForAllRows exampleCodec exampleUniqA ?br
        \<noteq> sup_updateStatsRowByRow exampleCodec exampleUniqA ?br"
    by blast
  from h1 h2 a b show ?thesis by blast
qed

text \<open>
  Claim C8 as stated fails on the first example block: the entry 0 of the dictionary (the
  empty string) is referenced by no row, and yet the fast path and the rows one by one
  reach the same state.
\<close>

theorem C8_unreferenced_empty_entry_counterexample:
  "sup_updateStatsForAllRows exampleCodec exampleUniqA \<lparr>br_timestamps = [0], br_columns = [exampleDictColumn1]\<rparr>
     = Inr (exampleUniqA\<lparr>sup_m := {[0, 2, 1]}\<rparr>)
   \<and> sup_updateStatsRowByRow exampleCodec exampleUniqA \<lparr>br_timestamps = [0], br_columns = [exampleDictColumn1]\<rparr>
     = Inr (exampleUniqA\<lparr>sup_m := {[0, 2, 1]}\<rparr>)
   \<and> c_dictValues exampleDictColumn1 = [[], [97]]
   \<and> c_encodedValues exampleDictColumn1 = [[1]]"
  by (simp add: sup_updateStatsForAllRows_def sup_updateStatsRowByRow_def sup_updateStatsForRow_def
      example_defs getColumnByName_def Let_def valueType_defs sup_dictEntry_def at_def bindE_def
      numeral_2_eq_2)

section \<open>The shape of the keys of one field\<close>

text \<open>
  The type tag in the key of a column that is not a time column: a const column is keyed
  as a string, any other column under its own value type.
\<close>

definition sup_keyTag :: "blockResultColumn \<Rightarrow> valueType" where
  "sup_keyTag c = (if c_isConst c then valueTypeString else c_valueType c)"

definition isSingleField :: "statsUniq \<Rightarrow> blockResult \<Rightarrow> blockResultColumn \<Rightarrow> bool" where
  "isSingleField su br c \<longleftrightarrow>
     \<not> su_containsStar su \<and> length (su_fields su) = 1 \<and> getColumnByName br (su_fields su ! 0) = c"

definition isKeyOf :: "blockResultColumn \<Rightarrow> bytes \<Rightarrow> bool" where
  "isKeyOf c k = (if c_isTime c then length k = 9 \<and> take 1 k = [1] else take 2 k = [0, sup_keyTag c])"

lemma marshalInt64_shape: "length (marshalInt64 [1] t) = 9 \<and> take 1 (marshalInt64 [1] t) = [1]"
  by (simp add: marshalInt64_def)

lemma sup_updateStatsForRow_key_shape:
  assumes "isSingleField (sup_su p) br c" "sup_updateStatsForRow cd p br i = Inr q"
    "k \<in> sup_m q" "k \<notin> sup_m p"
  shows "isKeyOf c k"
  using assms
  by (auto simp: isSingleField_def sup_updateStatsForRow_def Let_def bindE_def at_def isKeyOf_def
      sup_keyTag_def marshalInt64_def getEncodedValues_def split: if_splits)

lemma sup_updateStatsForAllRows_key_shape:
  assumes "isSingleField (sup_su p) br c" "sup_updateStatsForAllRows cd p br = Inr q"
    "k \<in> sup_m q" "k \<notin> sup_m p"
  shows "isKeyOf c k"
proof -
  from assms(1) have su: "\<not> su_containsStar (sup_su p)" "length (su_fields (sup_su p)) = 1"
    "getColumnByName br (su_fields (sup_su p) ! 0) = c"
    by (simp_all add: isSingleField_def)
  consider (time) "c_isTime c" | (const) "\<not> c_isTime c" "c_isConst c"
    | (dict) "\<not> c_isTime c" "\<not> c_isConst c" "c_valueType c = valueTypeDict"
    | (plain) "\<not> c_isTime c" "\<not> c_isConst c" "c_valueType c \<noteq> valueTypeDict"
    by blast
  then show ?thesis
  proof cases
    case time
    with su assms(2) have "sup_m q = sup_m p \<union> (\<lambda>i. marshalInt64 [1] (br_timestamps br ! i)) `
        {i \<in> set [0..<length (br_timestamps br)]. \<not> (0 < i \<and> br_timestamps br ! (i - 1) = br_timestamps br ! i)}"
      by (auto simp: sup_updateStatsForAllRows_def Let_def sup_timeRow_fold)
    with assms(3,4) obtain i where "k = marshalInt64 [1] (br_timestamps br ! i)" by auto
    with time marshalInt64_shape [of "br_timestamps br ! i"] show ?thesis by (simp add: isKeyOf_def)
  next
    case const
    with su assms(2,3,4) show ?thesis
      by (auto simp: sup_updateStatsForAllRows_def Let_def bindE_def at_def isKeyOf_def sup_keyTag_def
          split: if_splits)
  next
    case dict
    with su assms(2) have "sup_m q = sup_m p \<union> (\<lambda>i. [0, valueTypeDict, of_nat i]) `
        {i \<in> set [0..<length (c_dictValues c)]. c_dictValues c ! i \<noteq> []}"
      by (auto simp: sup_updateStatsForAllRows_def Let_def sup_dictEntry_fold)
    with assms(3,4) obtain i where "k = [0, valueTypeDict, of_nat i]" by auto
    with dict show ?thesis by (simp add: isKeyOf_def sup_keyTag_def)
  next
    case plain
    let ?ev = "getEncodedValues c br"
    from plain su assms(2) have "sup_m q = sup_m p \<union> (\<lambda>i. [0, c_valueType c] @ ?ev ! i) `
        {i \<in> set [0..<length ?ev]. \<not> ((c_valueType c = valueTypeString \<and> ?ev ! i = []) \<or> (0 < i \<and> ?ev ! (i - 1) = ?ev ! i))}"
      by (auto simp: sup_updateStatsForAllRows_def Let_def sup_plainRow_fold)
    with assms(3,4) obtain i where "k = [0, c_valueType c] @ ?ev ! i" by auto
    with plain show ?thesis by (simp add: isKeyOf_def sup_keyTag_def)
  qed
qed

lemma isKeyOf_differ:
  assumes "isKeyOf c1 k1" "isKeyOf c2 k2"
    "c_isTime c1 \<noteq> c_isTime c2 \<or> (\<not> c_isTime c1 \<and> \<not> c_isTime c2 \<and> sup_keyTag c1 \<noteq> sup_keyTag c2)"
  shows "k1 \<noteq> k2"
proof
  assume eq: "k1 = k2"
  from assms(3) show False
  proof
    assume "c_isTime c1 \<noteq> c_isTime c2"
    with assms(1,2) eq have "take 1 k1 = [1]" "take 2 k1 = [0, sup_keyTag c1] \<or> take 2 k1 = [0, sup_keyTag c2]"
      by (auto simp: isKeyOf_def split: if_splits)
    then show False by (cases k1) auto
  next
    assume "\<not> c_isTime c1 \<and> \<not> c_isTime c2 \<and> sup_keyTag c1 \<noteq> sup_keyTag c2"
    with assms(1,2) eq show False by (auto simp: isKeyOf_def)
  qed
qed

text \<open>
  Claim C5. Take one field, and two rows in columns of different physical type. A key
  that \<open>updateStatsForAllRows\<close> or \<open>updateStatsForRow\<close> adds for a time column is the byte 1
  and eight bytes of timestamp; a key added for any other column starts with the byte 0
  and the type tag. So a key of a time column differs from every key of a column that
  is none, and the keys of two such columns with different type tags differ, whatever
  the payload.
\<close>

theorem C5_keys_of_different_types_differ:
  assumes "isSingleField (sup_su p1) br1 c1" "isSingleField (sup_su p2) br2 c2"
    "sup_updateStatsForAllRows cd p1 br1 = Inr q1 \<or> sup_updateStatsForRow cd p1 br1 i = Inr q1"
    "sup_updateStatsForAllRows cd p2 br2 = Inr q2 \<or> sup_updateStatsForRow cd p2 br2 j = Inr q2"
    "k1 \<in> sup_m q1 - sup_m p1" "k2 \<in> sup_m q2 - sup_m p2"
    "c_isTime c1 \<noteq> c_isTime c2 \<or> (\<not> c_isTime c1 \<and> \<not> c_isTime c2 \<and> sup_keyTag c1 \<noteq> sup_keyTag c2)"
  shows "k1 \<noteq> k2 \<and> isKeyOf c1 k1 \<and> isKeyOf c2 k2"
proof -
  have s1: "isKeyOf c1 k1"
    using assms(1,3,5) sup_updateStatsForAllRows_key_shape sup_updateStatsForRow_key_shape by blast
  have s2: "isKeyOf c2 k2"
    using assms(2,4,6) sup_updateStatsForAllRows_key_shape sup_updateStatsForRow_key_shape by blast
  from s1 s2 assms(7) have "k1 \<noteq> k2" by (rule isKeyOf_differ)
  with s1 s2 show ?thesis by simp
qed

text \<open>
  A block whose column \<open>a\<close> is the time column, with the timestamp 0, and a block whose
  column \<open>a\<close> is a string column holding eight zero bytes.
\<close>

definition exampleTimeBlock :: blockResult where
  "exampleTimeBlock =
     \<lparr>br_timestamps = [0],
      br_columns = [\<lparr>c_name = [97], c_isConst = False, c_isTime = True, c_valueType = 0,
                     c_dictValues = [], c_encodedValues = []\<rparr>]\<rparr>"

definition exampleStringBlock :: blockResult where
  "exampleStringBlock =
     \<lparr>br_timestamps = [0],
      br_columns = [\<lparr>c_name = [97], c_isConst = False, c_isTime = False, c_valueType = valueTypeString,
                     c_dictValues = [], c_encodedValues = [[0, 0, 0, 0, 0, 0, 0, 0]]\<rparr>]\<rparr>"

theorem C5_keys_of_different_types_differ_witness:
  "sup_updateStatsForRow exampleCodec exampleUniqA exampleTimeBlock 0
     = Inr (exampleUniqA\<lparr>sup_m := {[1, 0, 0, 0, 0, 0, 0, 0, 0]}\<rparr>)
   \<and> sup_updateStatsForAllRows exampleCodec exampleUniqA exampleStringBlock
     = Inr (exampleUniqA\<lparr>sup_m := {[0, 1, 0, 0, 0, 0, 0, 0, 0, 0]}\<rparr>)
   \<and> [1, 0, 0, 0, 0, 0, 0, 0, 0] \<noteq> [0, 1, 0, 0, 0, 0, 0, 0, 0, 0 :: byte]
   \<and> isKeyOf (getColumnByName exampleTimeBlock [97]) [1, 0, 0, 0, 0, 0, 0, 0, 0]
   \<and> isKeyOf (getColumnByName exampleStringBlock [97]) [0, 1, 0, 0, 0, 0, 0, 0, 0, 0]"
proof -
  let ?c1 = "getColumnByName exampleTimeBlock [97]" and ?c2 = "getColumnByName exampleStringBlock [97]"
  let ?q1 = "exampleUniqA\<lparr>sup_m := {[1, 0, 0, 0, 0, 0, 0, 0, 0]}\<rparr>"
  let ?q2 = "exampleUniqA\<lparr>sup_m := {[0, 1, 0, 0, 0, 0, 0, 0, 0, 0]}\<rparr>"
  have h1: "isSingleField (sup_su exampleUniqA) exampleTimeBlock ?c1"
    by (simp add: isSingleField_def exampleUniqA_def)
  have h2: "isSingleField (sup_su exampleUniqA) exampleStringBlock ?c2"
    by (simp add: isSingleField_def exampleUniqA_def)
  have r1: "sup_updateStatsForRow exampleCodec exampleUniqA exampleTimeBlock 0 = Inr ?q1"
    by (simp add: sup_updateStatsForRow_def exampleUniqA_def exampleTimeBlock_def getColumnByName_def
        Let_def at_def bindE_def marshalInt64_def)
  have r2: "sup_updateStatsForAllRows exampleCodec exampleUniqA exampleStringBlock = Inr ?q2"
    by (simp add: sup_updateStatsForAllRows_def exampleUniqA_def exampleStringBlock_def getColumnByName_def
        Let_def getEncodedValues_def sup_plainRow_def valueType_defs)
  have h3: "sup_updateStatsForAllRows exampleCodec exampleUniqA exampleTimeBlock = Inr ?q1
              \<or> sup_updateStatsForRow exampleCodec exampleUniqA exampleTimeBlock 0 = Inr ?q1"
    using r1 by (rule disjI2)
  have h4: "sup_updateStatsForAllRows exampleCodec exampleUniqA exampleStringBlock = Inr ?q2
              \<or> sup_updateStatsForRow exampleCodec exampleUniqA exampleStringBlock 0 = Inr ?q2"
    using r2 by (rule disjI1)
  have h5: "[1, 0, 0, 0, 0, 0, 0, 0, 0] \<in> sup_m ?q1 - sup_m exampleUniqA"
    by (simp add: exampleUniqA_def)
  have h6: "[0, 1, 0, 0, 0, 0, 0, 0, 0, 0] \<in> sup_m ?q2 - sup_m exampleUniqA"
    by (simp add: exampleUniqA_def)
  have h7: "c_isTime ?c1 \<noteq> c_isTime ?c2 \<or> (\<not> c_isTime ?c1 \<and> \<not> c_isTime ?c2 \<and> sup_keyTag ?c1 \<noteq> sup_keyTag ?c2)"
    by (simp add: exampleTimeBlock_def exampleStringBlock_def getColumnByName_def)
  from C5_keys_of_different_types_differ [OF h1 h2 h3 h4 h5 h6 h7] r1 r2 show ?thesis
    by blast
qed

section \<open>The panic on an unknown value type\<close>

lemma bindE_Inl: "bindE r f = Inl e \<Longrightarrow> r = Inl e \<or> (\<exists>x. r = Inr x \<and> f x = Inl e)"
  by (cases r) (simp_all add: bindE_def)

lemma at_Inl: "at xs i = Inl e \<Longrightarrow> e = IndexOutOfRange"
  by (simp add: at_def split: if_splits)

lemma foldE_Inl:
  "foldE f xs s = Inl e \<Longrightarrow> \<exists>x s'. x \<in> set xs \<and> f x s' = Inl e"
proof (induction xs arbitrary: s)
  case Nil
  then show ?case by simp
next
  case (Cons x xs)
  from Cons.prems have "f x s = Inl e \<or> (\<exists>s'. f x s = Inr s' \<and> foldE f xs s' = Inl e)"
    by (auto dest: bindE_Inl)
  then show ?case
  proof
    assume "f x s = Inl e"
    then show ?thesis by auto
  next
    assume "\<exists>s'. f x s = Inr s' \<and> foldE f xs s' = Inl e"
    then obtain s' where "foldE f xs s' = Inl e" by blast
    from Cons.IH [OF this] show ?thesis by auto
  qed
qed

lemma forEachSetBitFrom_Inl:
  "forEachSetBitFrom i f bm = Inl e \<Longrightarrow> \<exists>j. f j = Inl e"
proof (induction bm arbitrary: i)
  case Nil
  then show ?case by simp
next
  case (Cons b bm)
  show ?case
  proof (cases b)
    case True
    with Cons.prems have "f i = Inl e \<or> forEachSetBitFrom (Suc i) f bm = Inl e"
      by (auto dest!: bindE_Inl)
    with Cons.IH show ?thesis by blast
  next
    case False
    with Cons.prems have "forEachSetBitFrom (Suc i) f bm = Inl e"
      by (auto dest!: bindE_Inl)
    with Cons.IH show ?thesis by blast
  qed
qed

lemma forEachSetBit_index_error:
  assumes "forEachSetBit f bm = Inl e" "\<And>j e'. f j = Inl e' \<Longrightarrow> e' = IndexOutOfRange"
  shows "e = IndexOutOfRange"
  using assms forEachSetBitFrom_Inl [of 0 f bm e] by (auto simp: forEachSetBit_def)

text \<open>
  The columns the switch on the value type knows: const and time columns, which are
  handled before it, and the documented value types.
\<close>

definition knownColumn :: "blockResultColumn \<Rightarrow> bool" where
  "knownColumn c \<longleftrightarrow>
     c_isConst c \<or> c_isTime c \<or> c_valueType c = valueTypeString \<or> c_valueType c = valueTypeDict \<or>
     isNumericValueType (c_valueType c)"

lemma scp_fieldsLoop_known:
  assumes "list_all (\<lambda>f. knownColumn (getColumnByName br f)) fs"
  shows "scp_fieldsLoop br fs bm \<noteq> Inl (UnknownValueType vt)"
  using assms
proof (induction fs arbitrary: bm)
  case Nil
  then show ?case by simp
next
  case (Cons f fs)
  let ?c = "getColumnByName br f"
  from Cons.prems have k: "knownColumn ?c" and rest: "list_all (\<lambda>f. knownColumn (getColumnByName br f)) fs"
    by simp_all
  have ih: "scp_fieldsLoop br fs bm' \<noteq> Inl (UnknownValueType vt)" for bm'
    using Cons.IH [OF rest] .
  show ?case
  proof
    assume bad: "scp_fieldsLoop br (f # fs) bm = Inl (UnknownValueType vt)"
    consider (const) "c_isConst ?c" | (time) "\<not> c_isConst ?c" "c_isTime ?c"
      | (str) "\<not> c_isConst ?c" "\<not> c_isTime ?c" "c_valueType ?c = valueTypeString"
      | (dict) "\<not> c_isConst ?c" "\<not> c_isTime ?c" "c_valueType ?c \<noteq> valueTypeString" "c_valueType ?c = valueTypeDict"
      | (num) "\<not> c_isConst ?c" "\<not> c_isTime ?c" "c_valueType ?c \<noteq> valueTypeString" "c_valueType ?c \<noteq> valueTypeDict"
          "isNumericValueType (c_valueType ?c)"
      using k unfolding knownColumn_def by blast
    then show False
    proof cases
      case const
      with bad ih show False
        by (auto simp: Let_def dest!: bindE_Inl at_Inl split: if_splits)
    next
      case time
      with bad show False by (simp add: Let_def)
    next
      case str
      with bad have "forEachSetBit (\<lambda>i. bindE (at (c_encodedValues ?c) i) (\<lambda>v. Inr (v = []))) bm = Inl (UnknownValueType vt)"
        using ih by (auto simp: Let_def dest!: bindE_Inl)
      then have "UnknownValueType vt = IndexOutOfRange"
        by (rule forEachSetBit_index_error) (auto dest!: bindE_Inl at_Inl)
      then show False by simp
    next
      case dict
      with bad have "forEachSetBit (\<lambda>i.
                  bindE (at (c_encodedValues ?c) i) (\<lambda>e.
                    bindE (at e 0) (\<lambda>dictIdx.
                      bindE (at (c_dictValues ?c) (unat dictIdx)) (\<lambda>v. Inr (v = []))))) bm = Inl (UnknownValueType vt)"
        using ih by (auto simp: Let_def dest!: bindE_Inl split: if_splits)
      then have "UnknownValueType vt = IndexOutOfRange"
        by (rule forEachSetBit_index_error) (auto dest!: bindE_Inl at_Inl)
      then show False by simp
    next
      case num
      with bad show False by (simp add: Let_def)
    qed
  qed
qed

lemma scp_updateStatsForAllRows_known:
  assumes "list_all (\<lambda>f. knownColumn (getColumnByName br f)) (sc_fields (scp_sc scp))"
  shows "scp_updateStatsForAllRows scp br \<noteq> Inl (UnknownValueType vt)"
proof
  assume bad: "scp_updateStatsForAllRows scp br = Inl (UnknownValueType vt)"
  let ?fs = "sc_fields (scp_sc scp)"
  consider (star) "sc_containsStar (scp_sc scp)"
    | (one) "\<not> sc_containsStar (scp_sc scp)" "length ?fs = 1"
    | (many) "\<not> sc_containsStar (scp_sc scp)" "length ?fs \<noteq> 1"
    by blast
  then show False
  proof cases
    case star
    with bad show False by (simp add: scp_updateStatsForAllRows_def Let_def)
  next
    case one
    then obtain f where f: "?fs = [f]" by (cases ?fs) auto
    let ?c = "getColumnByName br f"
    from assms f have k: "knownColumn ?c" by simp
    let ?dictLoop = "foldE (\<lambda>v scp. bindE (at v 0) (\<lambda>b.
                     if int (unat b) \<noteq> slicesIndex (c_dictValues ?c) [] then Inr (scp_addRows scp 1) else Inr scp))
                   (c_encodedValues ?c) scp"
    have loop: "?dictLoop \<noteq> Inl (UnknownValueType vt)"
    proof
      assume "?dictLoop = Inl (UnknownValueType vt)"
      from foldE_Inl [OF this] show False
        by (auto dest!: bindE_Inl at_Inl split: if_splits)
    qed
    from bad one f k loop show False
      by (auto simp: scp_updateStatsForAllRows_def Let_def knownColumn_def dest!: bindE_Inl at_Inl
          split: if_splits)
  next
    case many
    with bad scp_fieldsLoop_known [OF assms] show False
      by (auto simp: scp_updateStatsForAllRows_def Let_def dest!: bindE_Inl split: option.splits)
  qed
qed

lemma scp_updateStatsForRow_known:
  assumes "list_all (\<lambda>f. knownColumn (getColumnByName br f)) (sc_fields (scp_sc scp))"
  shows "scp_updateStatsForRow cd scp br rowIdx \<noteq> Inl (UnknownValueType vt)"
proof
  assume bad: "scp_updateStatsForRow cd scp br rowIdx = Inl (UnknownValueType vt)"
  let ?fs = "sc_fields (scp_sc scp)"
  show False
  proof (cases "\<not> sc_containsStar (scp_sc scp) \<and> length ?fs = 1")
    case True
    then obtain f where f: "?fs = [f]" by (cases ?fs) auto
    from assms f have "knownColumn (getColumnByName br f)" by simp
    with bad True f show False
      by (auto simp: scp_updateStatsForRow_def Let_def knownColumn_def dest!: bindE_Inl at_Inl
          split: if_splits)
  next
    case False
    with bad show False
      by (auto simp: scp_updateStatsForRow_def Let_def split: if_splits)
  qed
qed
section \<open>Group keys decode\<close>

lemma unmarshalValues_marshalled:
  "unmarshalValues (concat (map (marshalBytes []) vs)) acc = Inr (acc @ vs)"
proof (induction vs arbitrary: acc)
  case Nil
  then show ?case by (simp add: unmarshalValues.simps)
next
  case (Cons v vs)
  let ?rest = "concat (map (marshalBytes []) vs)"
  have "length (marshalBytes [] v @ ?rest) > 0"
    using marshalBytes_nonempty [of v] by simp
  then have "unmarshalValues (marshalBytes [] v @ ?rest) acc = unmarshalValues ?rest (acc @ [v])"
    by (subst unmarshalValues.simps) (simp add: unmarshalBytes_marshalBytes)
  with Cons.IH [of "acc @ [v]"] show ?case by simp
qed

text \<open>A key that decodes into \<open>n\<close> values.\<close>

definition validKey :: "nat \<Rightarrow> bytes \<Rightarrow> bool" where
  "validKey n key = (case unmarshalValues key [] of Inl e \<Rightarrow> False | Inr vs \<Rightarrow> length vs = n)"

lemma validKey_marshalled: "validKey (length vs) (concat (map (marshalBytes []) vs))"
  by (simp add: validKey_def unmarshalValues_marshalled)

lemma validKey_Nil: "validKey 0 []"
  using validKey_marshalled [of "[]"] by simp

lemma buildKey_marshalled:
  "foldE (\<lambda>idx keyBuf. bindE (columnValueAt columns idx i) (\<lambda>v. Inr (marshalBytes keyBuf v))) idxs kb = Inr key
     \<Longrightarrow> \<exists>vs. length vs = length idxs \<and> key = kb @ concat (map (marshalBytes []) vs)"
proof (induction idxs arbitrary: kb)
  case Nil
  then show ?case by simp
next
  case (Cons idx idxs)
  from Cons.prems obtain v where
    rest: "foldE (\<lambda>idx keyBuf. bindE (columnValueAt columns idx i) (\<lambda>v. Inr (marshalBytes keyBuf v))) idxs (marshalBytes kb v) = Inr key"
    by (cases "columnValueAt columns idx i") (auto simp: bindE_def)
  from Cons.IH [OF rest] obtain vs where vs: "length vs = length idxs" "key = marshalBytes kb v @ concat (map (marshalBytes []) vs)"
    by blast
  from vs(2) have "key = kb @ concat (map (marshalBytes []) (v # vs))"
    by (simp add: marshalBytes_append [of kb v])
  with vs(1) show ?case by (metis length_Cons)
qed

lemma buildGroupKey_valid:
  assumes "buildGroupKey columns idxs i keyBuf = Inr key"
  shows "validKey (length idxs) key"
proof -
  from assms buildKey_marshalled [of columns i idxs "[]" key]
  obtain vs where "length vs = length idxs" "key = concat (map (marshalBytes []) vs)"
    by (auto simp: buildGroupKey_def)
  with validKey_marshalled [of vs] show ?thesis by simp
qed

lemma length_appendBlockColumnIndexes:
  "length (appendBlockColumnIndexes dst columns fs) = length dst + length fs"
  unfolding appendBlockColumnIndexes_def
  by (induction fs arbitrary: dst) simp_all

text \<open>The invariant: every key of a group map decodes into \<open>n\<close> values.\<close>

definition validMap :: "nat \<Rightarrow> groupMap \<Rightarrow> bool" where
  "validMap n m = list_all (\<lambda>kv. validKey n (fst kv)) m"

lemma validMap_update:
  "validMap n m \<Longrightarrow> validKey n key \<Longrightarrow> validMap n (AList.update key spg m)"
  by (induction m) (auto simp: validMap_def)

lemma validMap_append:
  "validMap n m \<Longrightarrow> validKey n key \<Longrightarrow> validMap n (m @ [(key, spg)])"
  by (simp add: validMap_def)

lemma getStatsPipeGroup_valid:
  assumes "validMap n (shard_m shard)" "validKey n key" "getStatsPipeGroup shard key = (shard', spg)"
  shows "validMap n (shard_m shard')"
  using assms by (auto simp: getStatsPipeGroup_def Let_def validMap_append split: option.splits)

lemma storeGroup_valid:
  "validMap n (shard_m shard) \<Longrightarrow> validKey n key \<Longrightarrow> validMap n (shard_m (storeGroup shard key spg))"
  by (simp add: storeGroup_def validMap_update)

lemma foldE_invariant:
  assumes "foldE f xs s = Inr s'" "P s" "\<And>x t t'. P t \<Longrightarrow> f x t = Inr t' \<Longrightarrow> P t'"
  shows "P s'"
  using assms(1,2)
proof (induction xs arbitrary: s)
  case Nil
  then show ?case by simp
next
  case (Cons x xs)
  from Cons.prems(1) obtain t where t: "f x s = Inr t" "foldE f xs t = Inr s'"
    by (cases "f x s") (auto simp: bindE_def)
  from assms(3) [OF Cons.prems(2) t(1)] have "P t" .
  with Cons.IH t(2) show ?case by blast
qed

lemma writeBlockRow_valid:
  assumes "writeBlockRow timestamps columns idxs i (shard, kb) = Inr (shard', kb')"
    "validMap (length idxs) (shard_m shard)"
  shows "validMap (length idxs) (shard_m shard')"
proof -
  from assms(1) obtain key where key: "buildGroupKey columns idxs i kb = Inr key"
    by (cases "buildGroupKey columns idxs i kb") (auto simp: writeBlockRow_def bindE_def)
  then have vk: "validKey (length idxs) key" by (rule buildGroupKey_valid)
  obtain sh spg where g: "getStatsPipeGroup shard key = (sh, spg)" by (cases "getStatsPipeGroup shard key")
  with assms(2) vk have vsh: "validMap (length idxs) (shard_m sh)" by (auto dest: getStatsPipeGroup_valid)
  from assms(1) key g obtain sfps where "shard' = storeGroup sh key (spg\<lparr>spg_sfps := sfps\<rparr>)"
    by (cases "mapE (\<lambda>sfp. updateStatsForRow sfp timestamps columns i) (spg_sfps spg)")
      (auto simp: writeBlockRow_def bindE_def)
  with vsh vk show ?thesis by (simp add: storeGroup_valid)
qed

lemma writeBlockShard_valid:
  assumes "writeBlockShard byFields shard timestamps columns = Inr shard'"
    "validMap (length byFields) (shard_m shard)"
  shows "validMap (length byFields) (shard_m shard')"
proof (cases "length byFields = 0")
  case True
  obtain sh spg where g: "getStatsPipeGroup shard [] = (sh, spg)" by (cases "getStatsPipeGroup shard []")
  with assms(2) True validKey_Nil have vsh: "validMap (length byFields) (shard_m sh)"
    by (auto dest: getStatsPipeGroup_valid)
  from assms(1) True g obtain sfps where "shard' = storeGroup sh [] (spg\<lparr>spg_sfps := sfps\<rparr>)"
    by (cases "mapE (\<lambda>sfp. updateStatsForAllRows sfp timestamps columns) (spg_sfps spg)")
      (auto simp: writeBlockShard_def bindE_def)
  with vsh True validKey_Nil show ?thesis by (simp add: storeGroup_valid)
next
  case False
  let ?idxs = "appendBlockColumnIndexes (take 0 (shard_columnIdxs shard)) columns byFields"
  let ?sh = "shard\<lparr>shard_columnIdxs := ?idxs\<rparr>"
  have len: "length ?idxs = length byFields"
    by (simp add: length_appendBlockColumnIndexes)
  from assms(1) False obtain sh kb where
    loop: "foldE (writeBlockRow timestamps columns ?idxs) [0..<length timestamps] (?sh, shard_keyBuf ?sh) = Inr (sh, kb)"
    and res: "shard' = sh\<lparr>shard_keyBuf := kb\<rparr>"
    by (cases "foldE (writeBlockRow timestamps columns ?idxs) [0..<length timestamps] (?sh, shard_keyBuf ?sh)")
      (auto simp: writeBlockShard_def Let_def bindE_def)
  have "validMap (length ?idxs) (shard_m (fst (sh, kb)))"
  proof (rule foldE_invariant [OF loop, where P = "\<lambda>st. validMap (length ?idxs) (shard_m (fst st))"])
    show "validMap (length ?idxs) (shard_m (fst (?sh, shard_keyBuf ?sh)))"
      using assms(2) len by simp
  next
    fix x t t'
    assume "validMap (length ?idxs) (shard_m (fst t))" "writeBlockRow timestamps columns ?idxs x t = Inr t'"
    then show "validMap (length ?idxs) (shard_m (fst t'))"
      by (cases t; cases t') (auto dest: writeBlockRow_valid)
  qed
  with res len show ?thesis by simp
qed

definition validShards :: "statsPipeProcessor \<Rightarrow> bool" where
  "validShards spp = list_all (\<lambda>shard. validMap (length (sp_byFields (spp_sp spp))) (shard_m shard)) (spp_shards spp)"

lemma newPipeProcessor_valid: "validShards (newPipeProcessor sp workersCount stopCh)"
  by (simp add: validShards_def newPipeProcessor_def validMap_def list_all_iff)

lemma writeBlock_valid:
  assumes "writeBlock spp workerID timestamps columns = Inr spp'" "validShards spp"
  shows "validShards spp'"
proof -
  from assms(1) have w: "workerID < length (spp_shards spp)"
    by (auto simp: writeBlock_def at_def bindE_def split: if_splits)
  let ?shard = "spp_shards spp ! workerID"
  from assms(1) w obtain shard' where
    s: "writeBlockShard (sp_byFields (spp_sp spp)) ?shard timestamps columns = Inr shard'"
    and res: "spp' = spp\<lparr>spp_shards := (spp_shards spp)[workerID := shard']\<rparr>"
    by (cases "writeBlockShard (sp_byFields (spp_sp spp)) ?shard timestamps columns")
      (auto simp: writeBlock_def at_def bindE_def)
  from assms(2) w have "validMap (length (sp_byFields (spp_sp spp))) (shard_m ?shard)"
    by (simp add: validShards_def list_all_length)
  with s have "validMap (length (sp_byFields (spp_sp spp))) (shard_m shard')"
    by (rule writeBlockShard_valid)
  with assms(2) res w show ?thesis
    by (auto simp: validShards_def list_all_length nth_list_update)
qed

lemma writes_valid:
  assumes "foldE (\<lambda>w spp. case w of (workerID, timestamps, columns) \<Rightarrow> writeBlock spp workerID timestamps columns)
             writes (newPipeProcessor sp workersCount stopCh) = Inr spp"
  shows "validShards spp"
  by (rule foldE_invariant [OF assms, where P = validShards])
    (auto simp: newPipeProcessor_valid dest: writeBlock_valid)

lemma mergeGroup_valid:
  "mergeGroup m key spg = Inr m' \<Longrightarrow> validMap n m \<Longrightarrow> validKey n key \<Longrightarrow> validMap n m'"
  by (auto simp: mergeGroup_def bindE_def validMap_append validMap_update split: option.splits sum.splits)

lemma mergeShardGroups_valid:
  "mergeShardGroups stop sm m = Inr (Some m') \<Longrightarrow> validMap n m \<Longrightarrow> validMap n sm \<Longrightarrow> validMap n m'"
proof (induction sm arbitrary: m)
  case Nil
  then show ?case by simp
next
  case (Cons kv sm)
  obtain key spg where kv: "kv = (key, spg)" by (cases kv)
  from Cons.prems(1) kv obtain m1 where m1: "mergeGroup m key spg = Inr m1" "mergeShardGroups stop sm m1 = Inr (Some m')"
    by (cases "mergeGroup m key spg") (auto simp: bindE_def split: if_splits)
  from Cons.prems(3) kv have "validKey n key" "validMap n sm" by (simp_all add: validMap_def)
  with m1 Cons.prems(2) Cons.IH [of m1] show ?case by (auto dest: mergeGroup_valid)
qed

lemma mergeShards_valid:
  "mergeShards stop shards m = Inr (Some m') \<Longrightarrow> validMap n m \<Longrightarrow>
     list_all (\<lambda>shard. validMap n (shard_m shard)) shards \<Longrightarrow> validMap n m'"
proof (induction shards arbitrary: m)
  case Nil
  then show ?case by simp
next
  case (Cons shard shards)
  from Cons.prems(1) obtain m1 where m1: "mergeShardGroups stop (shard_m shard) m = Inr (Some m1)"
      "mergeShards stop shards m1 = Inr (Some m')"
    by (cases "mergeShardGroups stop (shard_m shard) m") (auto simp: bindE_def split: option.splits)
  with Cons.prems(2,3) have "validMap n m1" by (auto dest: mergeShardGroups_valid)
  with m1(2) Cons.prems(3) Cons.IH [of m1] show ?case by simp
qed

lemma emitGroups_valid:
  "validMap (length byFields) m \<Longrightarrow>
     emitGroups stop byFields m \<noteq> Inl CannotUnmarshalValue \<and>
     emitGroups stop byFields m \<noteq> Inl (UnexpectedNumberOfValues a b)"
proof (induction m)
  case Nil
  then show ?case by simp
next
  case (Cons kv m)
  obtain key spg where kv: "kv = (key, spg)" by (cases kv)
  from Cons.prems kv obtain vs where vs: "unmarshalValues key [] = Inr vs" "length vs = length byFields"
    by (auto simp: validMap_def validKey_def split: sum.splits)
  from Cons.prems have "validMap (length byFields) m" by (simp add: validMap_def)
  with Cons.IH have ih: "emitGroups stop byFields m \<noteq> Inl CannotUnmarshalValue"
      "emitGroups stop byFields m \<noteq> Inl (UnexpectedNumberOfValues a b)"
    by simp_all
  show ?case
    using kv vs ih by (cases "emitGroups stop byFields m") (auto simp: bindE_def)
qed

lemma mapE_Inl: "mapE f xs = Inl e \<Longrightarrow> \<exists>x \<in> set xs. f x = Inl e"
proof (induction xs)
  case Nil
  then show ?case by simp
next
  case (Cons x xs)
  then show ?case
    by (cases "f x"; cases "mapE f xs") (auto simp: bindE_def)
qed

lemma mergeState_Inl: "mergeState sfp src = Inl e \<Longrightarrow> e = TypeAssertionFailed"
  by (cases sfp; cases src) auto

lemma mergeGroup_Inl:
  "mergeGroup m key spg = Inl e \<Longrightarrow> e = IndexOutOfRange \<or> e = TypeAssertionFailed"
  by (auto simp: mergeGroup_def mergeSfps_def split: option.splits
      dest!: bindE_Inl mapE_Inl at_Inl mergeState_Inl)

lemma mergeShardGroups_Inl:
  "mergeShardGroups stop sm m = Inl e \<Longrightarrow> e = IndexOutOfRange \<or> e = TypeAssertionFailed"
proof (induction sm arbitrary: m)
  case Nil
  then show ?case by simp
next
  case (Cons kv sm)
  obtain key spg where kv: "kv = (key, spg)" by (cases kv)
  with Cons.prems have "mergeGroup m key spg = Inl e \<or> (\<exists>m1. mergeShardGroups stop sm m1 = Inl e)"
    by (auto dest!: bindE_Inl split: if_splits)
  with Cons.IH show ?case by (auto dest: mergeGroup_Inl)
qed

lemma mergeShards_Inl:
  "mergeShards stop shards m = Inl e \<Longrightarrow> e = IndexOutOfRange \<or> e = TypeAssertionFailed"
proof (induction shards arbitrary: m)
  case Nil
  then show ?case by simp
next
  case (Cons shard shards)
  from Cons.prems have "mergeShardGroups stop (shard_m shard) m = Inl e \<or> (\<exists>m1. mergeShards stop shards m1 = Inl e)"
    by (auto dest!: bindE_Inl split: option.splits)
  with Cons.IH show ?case by (auto dest: mergeShardGroups_Inl)
qed

lemma flush_valid:
  assumes "validShards spp"
  shows "flush spp \<noteq> Inl CannotUnmarshalValue \<and> flush spp \<noteq> Inl (UnexpectedNumberOfValues a b)"
proof (cases "spp_shards spp")
  case Nil
  then show ?thesis by (simp add: flush_def at_def bindE_def)
next
  case (Cons shard0 shards)
  let ?byFields = "sp_byFields (spp_sp spp)"
  let ?n = "length ?byFields"
  let ?stop = "spp_stopCh spp"
  from assms Cons have v0: "validMap ?n (shard_m shard0)" and vs: "list_all (\<lambda>shard. validMap ?n (shard_m shard)) shards"
    by (simp_all add: validShards_def)
  let ?special = "\<lambda>m. if length ?byFields = 0 \<and> length m = 0
                       then bindE (at shards 0) (\<lambda>shard. Inr (shard_m (fst (getStatsPipeGroup shard []))))
                       else Inr m"
  have fl: "flush spp = bindE (mergeShards ?stop shards (shard_m shard0)) (\<lambda>r.
            case r of None \<Rightarrow> Inr [] | Some m \<Rightarrow> bindE (?special m) (emitGroups ?stop ?byFields))"
    using Cons by (simp add: flush_def at_def bindE_def Let_def)
  show ?thesis
  proof (cases "mergeShards ?stop shards (shard_m shard0)")
    case (Inl e)
    with mergeShards_Inl [OF Inl] fl show ?thesis by (auto simp: bindE_def)
  next
    case (Inr r)
    show ?thesis
    proof (cases r)
      case None
      with Inr fl show ?thesis by (simp add: bindE_def)
    next
      case (Some m)
      with Inr v0 vs have vm: "validMap ?n m" by (auto dest: mergeShards_valid)
      show ?thesis
      proof (cases "?special m")
        case (Inl e)
        then have "e = IndexOutOfRange"
          by (auto dest!: bindE_Inl at_Inl split: if_splits)
        with Inl Inr Some fl show ?thesis by (simp add: bindE_def)
      next
        case m2: (Inr m2)
        have "validMap ?n m2"
        proof (cases "length ?byFields = 0 \<and> length m = 0")
          case False
          with m2 vm show ?thesis by auto
        next
          case True
          with m2 obtain shard where sh: "at shards 0 = Inr shard" "m2 = shard_m (fst (getStatsPipeGroup shard []))"
            by (cases "at shards 0") (auto simp: bindE_def)
          from sh(1) have "shard \<in> set shards" by (auto simp: at_def split: if_splits)
          with vs have "validMap ?n (shard_m shard)" by (simp add: list_all_iff)
          moreover from True validKey_Nil have "validKey ?n []" by simp
          ultimately show ?thesis
            using sh(2) by (cases "getStatsPipeGroup shard []") (auto dest: getStatsPipeGroup_valid)
        qed
        with emitGroups_valid [of ?byFields m2 ?stop a b] m2 Inr Some fl show ?thesis
          by (simp add: bindE_def)
      qed
    qed
  qed
qed
text \<open>
  Claim C9. After any sequence of \<open>writeBlock\<close> calls on a fresh stats pipe processor,
  every group key of every shard is a sequence of \<open>len(byFields)\<close> chunks written by
  \<open>marshalBytes\<close>, so \<open>flush\<close> reaches neither the panic on a key that cannot be decoded
  nor the one on an unexpected number of values. In stats_count.go, when every named
  field is a const or a time column or has one of the documented value types, neither
  update function reaches the panic on an unknown value type.
\<close>

theorem C9_invariant_panics_unreachable:
  assumes "foldE (\<lambda>w spp. case w of (workerID, timestamps, columns) \<Rightarrow> writeBlock spp workerID timestamps columns)
             writes (newPipeProcessor sp workersCount stopCh) = Inr spp"
    and "list_all (\<lambda>f. knownColumn (getColumnByName br f)) (sc_fields (scp_sc scp))"
  shows "flush spp \<noteq> Inl CannotUnmarshalValue
         \<and> flush spp \<noteq> Inl (UnexpectedNumberOfValues a b)
         \<and> scp_updateStatsForAllRows scp br \<noteq> Inl (UnknownValueType vt)
         \<and> scp_updateStatsForRow cd scp br rowIdx \<noteq> Inl (UnknownValueType vt)"
proof -
  from assms(1) have "validShards spp" by (rule writes_valid)
  then have "flush spp \<noteq> Inl CannotUnmarshalValue \<and> flush spp \<noteq> Inl (UnexpectedNumberOfValues a b)"
    by (rule flush_valid)
  moreover from assms(2) have "scp_updateStatsForAllRows scp br \<noteq> Inl (UnknownValueType vt)"
    by (rule scp_updateStatsForAllRows_known)
  moreover from assms(2) have "scp_updateStatsForRow cd scp br rowIdx \<noteq> Inl (UnknownValueType vt)"
    by (rule scp_updateStatsForRow_known)
  ultimately show ?thesis by simp
qed

text \<open>
  \<^verbatim>\<open>stats by (g) count() as c\<close> on one block of one row \<open>(g = 1)\<close>, and \<^verbatim>\<open>count(a)\<close> on a
  block whose column \<open>a\<close> holds one \<open>uint8\<close> value.
\<close>

definition examplePipe :: statsPipe where
  "examplePipe = \<lparr>sp_byFields = [[103]], sp_funcs = [StatsFuncCount \<lparr>sfc_fields = [], sfc_resultName = [99]\<rparr>]\<rparr>"

definition examplePipeState :: statsPipeProcessor where
  "examplePipeState =
     \<lparr>spp_sp = examplePipe, spp_stopCh = False,
      spp_shards =
        [\<lparr>shard_m = [([1, 49], \<lparr>spg_sfps = [CountProcessor \<lparr>sfcp_sfc = \<lparr>sfc_fields = [], sfc_resultName = [99]\<rparr>,
                                                                  sfcp_rowsCount = 1\<rparr>]\<rparr>)],
          shard_funcs = sp_funcs examplePipe, shard_columnIdxs = [0], shard_keyBuf = [1, 49]\<rparr>]\<rparr>"

definition exampleUint8Block :: blockResult where
  "exampleUint8Block =
     \<lparr>br_timestamps = [0],
      br_columns = [\<lparr>c_name = [97], c_isConst = False, c_isTime = False, c_valueType = valueTypeUint8,
                     c_dictValues = [], c_encodedValues = [[7]]\<rparr>]\<rparr>"

definition exampleCountA :: statsCountProcessor where
  "exampleCountA = \<lparr>scp_sc = \<lparr>sc_fields = [[97]], sc_containsStar = False\<rparr>, scp_rowsCount = 0\<rparr>"

theorem C9_invariant_panics_unreachable_witness:
  "foldE (\<lambda>w spp. case w of (workerID, timestamps, columns) \<Rightarrow> writeBlock spp workerID timestamps columns)
      [(0, [0], [\<lparr>Name = [103], Values = [[49]]\<rparr>])] (newPipeProcessor examplePipe 1 False) = Inr examplePipeState
   \<and> list_all (\<lambda>f. knownColumn (getColumnByName exampleUint8Block f)) (sc_fields (scp_sc exampleCountA))
   \<and> flush examplePipeState \<noteq> Inl CannotUnmarshalValue
   \<and> flush examplePipeState \<noteq> Inl (UnexpectedNumberOfValues 0 1)
   \<and> scp_updateStatsForAllRows exampleCountA exampleUint8Block \<noteq> Inl (UnknownValueType valueTypeUint8)
   \<and> scp_updateStatsForRow exampleCodec exampleCountA exampleUint8Block 0 \<noteq> Inl (UnknownValueType valueTypeUint8)"
proof -
  have h1: "foldE (\<lambda>w spp. case w of (workerID, timestamps, columns) \<Rightarrow> writeBlock spp workerID timestamps columns)
      [(0, [0], [\<lparr>Name = [103], Values = [[49]]\<rparr>])] (newPipeProcessor examplePipe 1 False) = Inr examplePipeState"
    by (simp add: examplePipe_def examplePipeState_def pipe_eval_defs)
  have h2: "list_all (\<lambda>f. knownColumn (getColumnByName exampleUint8Block f)) (sc_fields (scp_sc exampleCountA))"
    by (simp add: exampleCountA_def exampleUint8Block_def getColumnByName_def knownColumn_def
        isNumericValueType_def)
  from h1 h2 C9_invariant_panics_unreachable [OF h1 h2] show ?thesis
    by blast
qed

section \<open>count: the rows that have a value\<close>









lemma length_filter_const:
  "length (filter (\<lambda>i. P) xs) = (if P then length xs else 0)"
  by simp




































section \<open>uniq: the projections of the rows\<close>

text \<open>
  What the spec counts (4.4.2, P2): the distinct projections of the rows, but for the
  rows whose projection is empty in every field. For named fields the projection of a row
  is the list of its values in these fields; for \<open>*\<close> it is the list of the names and
  values of all columns of the block.
\<close>

definition rowValues :: "codec \<Rightarrow> statsUniq \<Rightarrow> blockResult \<Rightarrow> nat \<Rightarrow> bytes list" where
  "rowValues cd su br i =
     (if su_containsStar su then map (\<lambda>c. getValueAtRow cd c br i) (getColumns br)
      else map (\<lambda>f. getValueAtRow cd (getColumnByName br f) br i) (su_fields su))"

definition rowProjection :: "codec \<Rightarrow> statsUniq \<Rightarrow> blockResult \<Rightarrow> nat \<Rightarrow> bytes list" where
  "rowProjection cd su br i =
     (if su_containsStar su then concat (map (\<lambda>c. [c_name c, getValueAtRow cd c br i]) (getColumns br))
      else rowValues cd su br i)"

definition rowCounts :: "codec \<Rightarrow> statsUniq \<Rightarrow> blockResult \<Rightarrow> nat \<Rightarrow> bool" where
  "rowCounts cd su br i = list_ex (\<lambda>v. v \<noteq> []) (rowValues cd su br i)"

definition blockProjections :: "codec \<Rightarrow> statsUniq \<Rightarrow> blockResult \<Rightarrow> bytes list set" where
  "blockProjections cd su br =
     set (map (rowProjection cd su br) (filter (rowCounts cd su br) [0..<length (br_timestamps br)]))"

definition projections :: "codec \<Rightarrow> statsUniq \<Rightarrow> blockResult list \<Rightarrow> bytes list set" where
  "projections cd su brs = \<Union> (set (map (blockProjections cd su) brs))"

text \<open>The key of a projection when it is written chunk by chunk with \<open>marshalBytes\<close>.\<close>

definition marshalChunks :: "bytes list \<Rightarrow> bytes" where
  "marshalChunks chunks = concat (map (marshalBytes []) chunks)"


lemma fold_appendKeyValue:
  "fold (\<lambda>x st. appendKeyValue (g x) st) xs (ae, kb)
     = (ae \<and> \<not> list_ex (\<lambda>v. v \<noteq> []) (map g xs), kb @ marshalChunks (map g xs))"
proof (induction xs arbitrary: ae kb)
  case Nil
  then show ?case by (simp add: marshalChunks_def)
next
  case (Cons x xs)
  have "appendKeyValue (g x) (ae, kb) = (ae \<and> g x = [], kb @ marshalBytes [] (g x))"
    using marshalBytes_append [of kb "g x"] by (simp add: appendKeyValue_def)
  with Cons.IH show ?case
    by (auto simp: marshalChunks_def)
qed
















lemma finite_projections: "finite (projections cd su brs)"
  by (simp add: projections_def blockProjections_def)

section \<open>uniq in pipes.go: the projections of the rows\<close>

text \<open>
  At the stage boundary a block is its timestamps and its columns, each column with one
  value per row (spec 6). The value of a field in a row is the value of the column of
  that name, and the empty string when there is no such column. pipes.go treats \<open>*\<close> as
  a field name like any other.
\<close>

type_synonym block = "int64 list \<times> BlockColumn list"

definition wfColumns :: "block \<Rightarrow> bool" where
  "wfColumns blk = list_all (\<lambda>c. length (Values c) = length (fst blk)) (snd blk)"

definition fieldValue :: "BlockColumn list \<Rightarrow> bytes \<Rightarrow> nat \<Rightarrow> bytes" where
  "fieldValue columns f i =
     (if getBlockColumnIndex columns f \<ge> 0 then Values (columns ! nat (getBlockColumnIndex columns f)) ! i else [])"

definition sfup_rowProjection :: "bytes list \<Rightarrow> block \<Rightarrow> nat \<Rightarrow> bytes list" where
  "sfup_rowProjection fieldNames blk i = map (\<lambda>f. fieldValue (snd blk) f i) fieldNames"

definition sfup_rowCounts :: "bytes list \<Rightarrow> block \<Rightarrow> nat \<Rightarrow> bool" where
  "sfup_rowCounts fieldNames blk i = list_ex (\<lambda>v. v \<noteq> []) (sfup_rowProjection fieldNames blk i)"






lemma getBlockColumnIndex_range:
  "getBlockColumnIndex columns f < 0 \<or>
   (nat (getBlockColumnIndex columns f) < length columns \<and> 0 \<le> getBlockColumnIndex columns f)"
proof (induction columns)
  case Nil
  then show ?case by simp
next
  case (Cons c cs)
  then show ?case by (auto simp: Let_def nat_add_distrib)
qed

lemma columnValueAt_field:
  assumes "wfColumns (ts, columns)" "i < length ts"
  shows "columnValueAt columns (getBlockColumnIndex columns f) i = Inr (fieldValue columns f i)"
proof (cases "getBlockColumnIndex columns f \<ge> 0")
  case False
  then show ?thesis by (simp add: columnValueAt_def fieldValue_def)
next
  case True
  with getBlockColumnIndex_range [of columns f] have r: "nat (getBlockColumnIndex columns f) < length columns"
    by auto
  with assms have "i < length (Values (columns ! nat (getBlockColumnIndex columns f)))"
    by (simp add: wfColumns_def list_all_length)
  with True r show ?thesis
    by (simp add: columnValueAt_def fieldValue_def at_def bindE_def)
qed




























section \<open>More on the defects of pipes.go\<close>

text \<open>
  \<open>updateStatsForRow\<close> of pipes.go with several fields, in general: the key it inserts is
  the scratch buffer as the call found it, followed by the marshalled projection of the
  row, and the buffer keeps both.
\<close>

lemma foldE_fieldsKey:
  assumes "wfColumns (ts, columns)" "i < length ts"
  shows "foldE (\<lambda>f st. bindE (columnValueAt columns (getBlockColumnIndex columns f) i)
                           (\<lambda>v. Inr (appendKeyValue v st))) fs st
         = Inr (fold (\<lambda>f st. appendKeyValue (fieldValue columns f i) st) fs st)"
proof (induction fs arbitrary: st)
  case Nil
  then show ?case by simp
next
  case (Cons f fs)
  then show ?case
    by (simp add: columnValueAt_field [OF assms] bindE_def)
qed

lemma sfup_updateStatsForRow_multi:
  assumes "length (sfu_fields (sfup_sfu p)) \<noteq> 1" "wfColumns (ts, columns)" "i < length ts"
  shows "sfup_updateStatsForRow p ts columns i
           = Inr (if sfup_rowCounts (sfu_fields (sfup_sfu p)) (ts, columns) i
                  then p\<lparr>sfup_keyBuf := sfup_keyBuf p @ marshalChunks (sfup_rowProjection (sfu_fields (sfup_sfu p)) (ts, columns) i),
                         sfup_m := insert (sfup_keyBuf p @ marshalChunks (sfup_rowProjection (sfu_fields (sfup_sfu p)) (ts, columns) i))
                                     (sfup_m p)\<rparr>
                  else p\<lparr>sfup_keyBuf := sfup_keyBuf p @ marshalChunks (sfup_rowProjection (sfu_fields (sfup_sfu p)) (ts, columns) i)\<rparr>)"
proof -
  let ?fs = "sfu_fields (sfup_sfu p)"
  have "foldE (\<lambda>f st. bindE (columnValueAt columns (getBlockColumnIndex columns f) i)
                           (\<lambda>v. Inr (appendKeyValue v st))) ?fs (True, sfup_keyBuf p)
          = Inr (\<not> sfup_rowCounts ?fs (ts, columns) i,
                 sfup_keyBuf p @ marshalChunks (sfup_rowProjection ?fs (ts, columns) i))"
    using fold_appendKeyValue [of "\<lambda>f. fieldValue columns f i" ?fs True "sfup_keyBuf p"]
    by (simp add: foldE_fieldsKey [OF assms(2,3)] sfup_rowCounts_def sfup_rowProjection_def)
  then have "sfup_updateStatsForRow p ts columns i
          = bindE (Inr (\<not> sfup_rowCounts ?fs (ts, columns) i,
                        sfup_keyBuf p @ marshalChunks (sfup_rowProjection ?fs (ts, columns) i)))
              (\<lambda>r. case r of (allEmptyValues, keyBuf) \<Rightarrow>
                 if allEmptyValues then Inr (p\<lparr>sfup_keyBuf := keyBuf\<rparr>)
                 else Inr (p\<lparr>sfup_keyBuf := keyBuf, sfup_m := insert keyBuf (sfup_m p)\<rparr>))"
    using assms(1) by (simp add: sfup_updateStatsForRow_def Let_def)
  then show ?thesis
    by (simp add: bindE_def)
qed

text \<open>
  \<open>flush\<close> without input, in general: with non-empty \<open>byFields\<close> no row is written, for any
  number of workers; with empty \<open>byFields\<close> and two workers or more, one row with the
  results of the fresh states is written (the group is made in the second shard).
\<close>

lemma mergeShards_empty:
  "list_all (\<lambda>shard. shard_m shard = []) shards \<Longrightarrow> mergeShards stop shards m = Inr (Some m)"
  by (induction shards) (simp_all add: bindE_def)

lemma flush_no_input_byFields:
  assumes "sp_byFields sp \<noteq> []" "0 < workersCount"
  shows "flush (newPipeProcessor sp workersCount stopCh) = Inr []"
proof -
  let ?shard = "\<lparr>shard_m = [], shard_funcs = sp_funcs sp, shard_columnIdxs = [], shard_keyBuf = []\<rparr>"
  have "mergeShards stopCh (drop 1 (replicate workersCount ?shard)) [] = Inr (Some [])"
    by (rule mergeShards_empty) (simp add: list_all_iff)
  with assms show ?thesis
    by (simp add: flush_def newPipeProcessor_def at_def bindE_def Let_def)
qed

lemma flush_no_input_two_workers:
  assumes "sp_byFields sp = []" "2 \<le> workersCount"
  shows "flush (newPipeProcessor sp workersCount False)
           = Inr [(0, [0], map (\<lambda>f. case finalizeStats (newStatsFuncProcessor f) of
                                         (name, value) \<Rightarrow> \<lparr>Name = name, Values = [value]\<rparr>) (sp_funcs sp))]"
proof -
  let ?shard = "\<lparr>shard_m = [], shard_funcs = sp_funcs sp, shard_columnIdxs = [], shard_keyBuf = []\<rparr>"
  from assms(2) obtain n where n: "workersCount = Suc (Suc n)"
    by (metis Suc_le_D numeral_2_eq_2 Suc_le_mono)
  have m: "mergeShards False (drop 1 (replicate workersCount ?shard)) [] = Inr (Some [])"
    by (rule mergeShards_empty) (simp add: list_all_iff)
  have first: "drop 1 (replicate workersCount ?shard) = ?shard # replicate n ?shard"
    using n by simp
  show ?thesis
    using assms(1) m n
    by (simp add: flush_def newPipeProcessor_def at_def bindE_def Let_def getStatsPipeGroup_def
        unmarshalValues.simps groupColumns_def comp_def)
qed

end
